theory Spec2Isabelle
  imports Main "HOL-Library.Sublist"
begin

section \<open>JavaScript strings\<close>

text \<open>
  A JavaScript string is a sequence of UTF-16 code units, and \<open>length\<close>, \<open>substring\<close>
  and the regular expressions of the source count code units. The source has literals
  outside ASCII (the default quiz options, the unit of a time estimate), so a string is
  modelled as the list of its code units. \<open>asc\<close> embeds an ASCII literal.
\<close>

type_synonym jstring = "nat list"

definition asc :: "string \<Rightarrow> jstring" where
  "asc s = map of_char s"

text \<open>
  The class \<open>\s\<close> of a JavaScript regular expression, which is also what
  \<open>String.prototype.trim\<close> strips: WhiteSpace and LineTerminator code units.
\<close>

definition is_space :: "nat \<Rightarrow> bool" where
  "is_space c \<longleftrightarrow>
     c = 9 \<or> c = 10 \<or> c = 11 \<or> c = 12 \<or> c = 13 \<or> c = 32 \<or> c = 160 \<or> c = 5760
     \<or> (8192 \<le> c \<and> c \<le> 8202) \<or> c = 8232 \<or> c = 8233 \<or> c = 8239 \<or> c = 8287
     \<or> c = 12288 \<or> c = 65279"

definition is_digit :: "nat \<Rightarrow> bool" where
  "is_digit c \<longleftrightarrow> 48 \<le> c \<and> c \<le> 57"

definition trim :: "jstring \<Rightarrow> jstring" where
  "trim s = rev (dropWhile is_space (rev (dropWhile is_space s)))"

text \<open>\<open>s.replace(/[C]+/g, ' ')\<close>: every maximal run of code units of the class \<open>C\<close>
  becomes one space.\<close>

function replace_runs :: "(nat \<Rightarrow> bool) \<Rightarrow> jstring \<Rightarrow> jstring" where
  "replace_runs C [] = []"
| "replace_runs C (c # cs) =
     (if C c then 32 # replace_runs C (dropWhile C cs) else c # replace_runs C cs)"
  by pat_completeness auto
termination
  by (relation "measure (\<lambda>(C, s). length s)") (auto simp: length_dropWhile_le less_Suc_eq_le)

text \<open>\<open>BaseAgent.cleanText\<close>:
  \<^verbatim>\<open>text.replace(/\s+/g, ' ').replace(/[\r\n]+/g, ' ').trim()\<close>\<close>

definition cleanText :: "jstring \<Rightarrow> jstring" where
  "cleanText text = trim (replace_runs (\<lambda>c. c = 13 \<or> c = 10) (replace_runs is_space text))"

text \<open>\<open>s.substring(0, n)\<close> for a constant \<open>n \<ge> 0\<close>.\<close>

definition substring0 :: "jstring \<Rightarrow> nat \<Rightarrow> jstring" where
  "substring0 s n = take n s"

text \<open>\<open>s.includes(sub)\<close> and \<open>s.startsWith(p)\<close>.\<close>

fun str_includes :: "jstring \<Rightarrow> jstring \<Rightarrow> bool" where
  "str_includes [] sub = (sub = [])"
| "str_includes (c # cs) sub = (prefix sub (c # cs) \<or> str_includes cs sub)"

definition startsWith :: "jstring \<Rightarrow> jstring \<Rightarrow> bool" where
  "startsWith s p = prefix p s"

text \<open>\<open>xs.slice(0, e)\<close> on an array, for an integer \<open>e\<close>: a negative end counts from
  the end of the array.\<close>

definition slice0 :: "'a list \<Rightarrow> int \<Rightarrow> 'a list" where
  "slice0 xs e =
     (let n = int (length xs);
          k = (if e < 0 then max (n + e) 0 else min e n)
      in take (nat k) xs)"

text \<open>\<open>xs.findIndex(p)\<close>: the index of the first element satisfying \<open>p\<close>, or \<open>-1\<close>.\<close>

fun findIndex :: "('a \<Rightarrow> bool) \<Rightarrow> 'a list \<Rightarrow> int" where
  "findIndex p [] = - 1"
| "findIndex p (x # xs) =
     (if p x then 0 else (let r = findIndex p xs in if r < 0 then - 1 else r + 1))"

text \<open>\<open>xs.filter((x, index, arr) => p(x, index, arr))\<close>, the callback reading the index.\<close>

definition filter_indexed :: "('a \<Rightarrow> nat \<Rightarrow> bool) \<Rightarrow> 'a list \<Rightarrow> 'a list" where
  "filter_indexed p xs = map snd (filter (\<lambda>(i, x). p x i) (enumerate 0 xs))"


section \<open>Domain records (agent-types)\<close>

text \<open>
  The interfaces \<open>KeyPoint\<close>, \<open>LearningStep\<close> and \<open>QuizQuestion\<close>. The required string
  fields are strings; a field that is missing in an object parsed from model output
  (\<open>undefined\<close>) is represented by the empty string, because the functions modelled here
  read such a field only through a truthiness test (\<open>x && ...\<close>, \<open>x || default\<close>,
  \<open>!x\<close>), or a membership test in a list of non-empty literals, and these treat
  \<open>undefined\<close> and \<open>''\<close> alike. Fields that are copied through (\<open>category\<close>,
  \<open>examples\<close>, \<open>code\<close>) are optional.
\<close>

record KeyPoint =
  kp_concept :: jstring
  kp_description :: jstring
  kp_importance :: jstring
  kp_category :: "jstring option"
  kp_examples :: "jstring list option"


section \<open>Key-point extractor: validation and de-duplication\<close>

text \<open>
  \<open>KeyPointExtractorAgent.validateAndCleanKeyPoints\<close>. \<open>String.prototype.toLowerCase\<close>
  is a built-in with Unicode case mapping; it is the parameter \<open>toLowerCase\<close>.
\<close>

definition normalizeKeyPoint :: "KeyPoint \<Rightarrow> KeyPoint" where
  "normalizeKeyPoint kp =
     kp\<lparr> kp_concept := substring0 (cleanText (kp_concept kp)) 100,
         kp_description := substring0 (cleanText (kp_description kp)) 300,
         kp_importance :=
           (if kp_importance kp \<in> set [asc ''high'', asc ''medium'', asc ''low'']
            then kp_importance kp else asc ''medium'') \<rparr>"

definition validateAndCleanKeyPoints ::
  "(jstring \<Rightarrow> jstring) \<Rightarrow> KeyPoint list \<Rightarrow> int \<Rightarrow> KeyPoint list" where
  "validateAndCleanKeyPoints toLowerCase keyPoints maxCount =
     (let validKeyPoints =
            slice0
              (map normalizeKeyPoint
                 (filter (\<lambda>kp. kp_description kp \<noteq> [] \<and> length (trim (kp_description kp)) > 10)
                    (filter (\<lambda>kp. kp_concept kp \<noteq> [] \<and> length (trim (kp_concept kp)) > 0)
                       keyPoints)))
              maxCount
      in filter_indexed
           (\<lambda>kp index.
              findIndex (\<lambda>other. toLowerCase (kp_concept other) = toLowerCase (kp_concept kp))
                validKeyPoints = int index)
           validKeyPoints)"

text \<open>ASCII lower-casing, the restriction of \<open>toLowerCase\<close> to ASCII strings.\<close>

definition ascii_lower :: "jstring \<Rightarrow> jstring" where
  "ascii_lower s = map (\<lambda>c. if 65 \<le> c \<and> c \<le> 90 then c + 32 else c) s"

subsection \<open>First occurrences are distinct\<close>

lemma findIndex_nonneg_iff: "findIndex p xs \<ge> 0 \<longleftrightarrow> (\<exists>x \<in> set xs. p x)"
  by (induction xs) (auto simp: Let_def)

lemma findIndex_eq_iff:
  "findIndex p xs = int i \<longleftrightarrow> i < length xs \<and> p (xs ! i) \<and> (\<forall>j<i. \<not> p (xs ! j))"
proof (induction xs arbitrary: i)
  case Nil
  then show ?case by simp
next
  case (Cons x xs)
  show ?case
  proof (cases "p x")
    case True
    then show ?thesis by (cases i) auto
  next
    case False
    show ?thesis
    proof (cases i)
      case 0
      with False show ?thesis by (auto simp: Let_def)
    next
      case (Suc k)
      have "findIndex p (x # xs) = int (Suc k) \<longleftrightarrow> findIndex p xs = int k"
        using False by (auto simp: Let_def)
      also have "\<dots> \<longleftrightarrow> k < length xs \<and> p (xs ! k) \<and> (\<forall>j<k. \<not> p (xs ! j))"
        by (rule Cons.IH)
      also have "\<dots> \<longleftrightarrow> Suc k < length (x # xs) \<and> p ((x # xs) ! Suc k) \<and> (\<forall>j<Suc k. \<not> p ((x # xs) ! j))"
        using False by (auto simp: less_Suc_eq_0_disj)
      finally show ?thesis using Suc by simp
    qed
  qed
qed

lemma filter_indexed_nth:
  "filter_indexed q xs = map ((!) xs) (filter (\<lambda>i. q (xs ! i) i) [0..<length xs])"
proof -
  have "enumerate 0 xs = map (\<lambda>i. (i, xs ! i)) [0..<length xs]"
    by (rule nth_equalityI) (simp_all add: nth_enumerate_eq)
  then show ?thesis
    by (simp add: filter_indexed_def filter_map comp_def)
qed

lemma first_occurrences_distinct:
  "distinct (map f (filter_indexed (\<lambda>x i. findIndex (\<lambda>other. f other = f x) xs = int i) xs))"
proof -
  let ?Q = "\<lambda>i. findIndex (\<lambda>other. f other = f (xs ! i)) xs = int i"
  have inj: "inj_on (\<lambda>i. f (xs ! i)) {i. i < length xs \<and> ?Q i}"
  proof (rule inj_onI)
    fix i j
    assume i: "i \<in> {i. i < length xs \<and> ?Q i}" and j: "j \<in> {i. i < length xs \<and> ?Q i}"
      and eq: "f (xs ! i) = f (xs ! j)"
    from i have qi: "\<forall>k<i. f (xs ! k) \<noteq> f (xs ! i)" by (simp add: findIndex_eq_iff)
    from j have qj: "\<forall>k<j. f (xs ! k) \<noteq> f (xs ! j)" by (simp add: findIndex_eq_iff)
    show "i = j"
    proof (rule ccontr)
      assume "i \<noteq> j"
      then consider "i < j" | "j < i" by linarith
      then show False using qi qj eq by cases auto
    qed
  qed
  have "distinct (map (\<lambda>i. f (xs ! i)) (filter ?Q [0..<length xs]))"
    by (rule iffD2[OF distinct_map]) (auto intro: inj_on_subset[OF inj])
  then show ?thesis
    by (simp add: filter_indexed_nth comp_def)
qed

lemma length_filter_indexed: "length (filter_indexed q xs) \<le> length xs"
  unfolding filter_indexed_def by (simp add: le_trans[OF length_filter_le])

lemma length_slice0: "0 \<le> e \<Longrightarrow> int (length (slice0 xs e)) \<le> e"
  by (simp add: slice0_def Let_def)


text \<open>Three sample key points: the second repeats the concept of the first in another
  case and with other spacing, and names an importance outside the enumeration.\<close>

definition kpA :: KeyPoint where
  "kpA = \<lparr>kp_concept = asc ''React Hooks'', kp_description = asc ''State in function components'',
          kp_importance = asc ''high'', kp_category = None, kp_examples = None\<rparr>"
definition kpB :: KeyPoint where
  "kpB = \<lparr>kp_concept = asc ''  react   HOOKS '', kp_description = asc ''The same concept, other case'',
          kp_importance = asc ''urgent'', kp_category = None, kp_examples = None\<rparr>"
definition kpC :: KeyPoint where
  "kpC = \<lparr>kp_concept = asc ''JSX'', kp_description = asc ''Markup syntax inside JavaScript'',
          kp_importance = asc ''low'', kp_category = None, kp_examples = None\<rparr>"





text \<open>
  Claim C7. For every list of raw key points and every maximum count (a non-negative
  integer), the output of \<open>validateAndCleanKeyPoints\<close> has no two entries whose
  \<open>concept\<close> fields are equal after \<open>toLowerCase\<close>, and its length is at most the
  maximum count. The lower-casing function is arbitrary.
\<close>

theorem validateAndCleanKeyPoints_unique_and_capped:
  assumes "0 \<le> maxCount"
  shows "distinct (map (\<lambda>kp. toLowerCase (kp_concept kp))
                    (validateAndCleanKeyPoints toLowerCase keyPoints maxCount))
         \<and> int (length (validateAndCleanKeyPoints toLowerCase keyPoints maxCount)) \<le> maxCount"
proof
  show "distinct (map (\<lambda>kp. toLowerCase (kp_concept kp))
                    (validateAndCleanKeyPoints toLowerCase keyPoints maxCount))"
    unfolding validateAndCleanKeyPoints_def Let_def
    by (rule first_occurrences_distinct)
  have "length (validateAndCleanKeyPoints toLowerCase keyPoints maxCount)
          \<le> length (slice0 (map normalizeKeyPoint
                 (filter (\<lambda>kp. kp_description kp \<noteq> [] \<and> length (trim (kp_description kp)) > 10)
                    (filter (\<lambda>kp. kp_concept kp \<noteq> [] \<and> length (trim (kp_concept kp)) > 0)
                       keyPoints))) maxCount)"
    unfolding validateAndCleanKeyPoints_def Let_def by (rule length_filter_indexed)
  then have "int (length (validateAndCleanKeyPoints toLowerCase keyPoints maxCount))
          \<le> int (length (slice0 (map normalizeKeyPoint
                 (filter (\<lambda>kp. kp_description kp \<noteq> [] \<and> length (trim (kp_description kp)) > 10)
                    (filter (\<lambda>kp. kp_concept kp \<noteq> [] \<and> length (trim (kp_concept kp)) > 0)
                       keyPoints))) maxCount))"
    by simp
  also have "\<dots> \<le> maxCount" by (rule length_slice0[OF assms])
  finally show "int (length (validateAndCleanKeyPoints toLowerCase keyPoints maxCount)) \<le> maxCount" .
qed


theorem validateAndCleanKeyPoints_unique_and_capped_witness:
  "(0::int) \<le> 8
   \<and> distinct (map (\<lambda>kp. ascii_lower (kp_concept kp))
                  (validateAndCleanKeyPoints ascii_lower [kpA, kpB, kpC] 8))
   \<and> int (length (validateAndCleanKeyPoints ascii_lower [kpA, kpB, kpC] 8)) \<le> 8"
  using validateAndCleanKeyPoints_unique_and_capped[of 8 ascii_lower "[kpA, kpB, kpC]"] by simp

text \<open>On the sample the duplicate is dropped and the first spelling is kept.\<close>

lemma validateAndCleanKeyPoints_sample:
  "map kp_concept (validateAndCleanKeyPoints ascii_lower [kpA, kpB, kpC] 8)
     = [asc ''React Hooks'', asc ''JSX'']"
  by (simp add: validateAndCleanKeyPoints_def kpA_def kpB_def kpC_def asc_def slice0_def
      filter_indexed_def normalizeKeyPoint_def cleanText_def trim_def is_space_def
      substring0_def ascii_lower_def enumerate_eq_zip)


section \<open>Numbers and template strings\<close>

text \<open>\<open>`${n}`\<close> for a natural number: its decimal digits.\<close>

fun show_nat :: "nat \<Rightarrow> jstring" where
  "show_nat n = (if n < 10 then [48 + n] else show_nat (n div 10) @ [48 + n mod 10])"

declare show_nat.simps [simp del]

text \<open>\<open>s.match(/\d+/)\<close>: the first maximal run of ASCII digits, \<open>None\<close> for \<open>null\<close>.\<close>

definition match_digits :: "jstring \<Rightarrow> jstring option" where
  "match_digits s =
     (let r = takeWhile is_digit (dropWhile (\<lambda>c. \<not> is_digit c) s)
      in if r = [] then None else Some r)"

text \<open>\<open>parseInt\<close> of a run of digits.\<close>

definition parseInt :: "jstring \<Rightarrow> nat" where
  "parseInt ds = foldl (\<lambda>a c. 10 * a + (c - 48)) 0 ds"

section \<open>Quiz generator: question normalization\<close>

text \<open>\<open>QuizQuestion\<close>. A question that \<open>validateAndNormalizeQuestion\<close> returns has
  its options and its points.\<close>

record QuizQuestion =
  qq_id :: jstring
  qq_type :: jstring
  qq_question :: jstring
  qq_options :: "jstring list option"
  qq_correctAnswer :: jstring
  qq_explanation :: jstring
  qq_difficulty :: jstring
  qq_concept :: jstring
  qq_points :: "int option"

text \<open>
  A raw question parsed from model output (the parameter of
  \<open>validateAndNormalizeQuestion\<close> has type \<open>any\<close>). Its \<open>options\<close> are an array of
  strings, a string, or nothing that has an entry \<open>0\<close> (the field is missing, \<open>null\<close>,
  a number or a boolean); \<open>rq_points\<close> is \<open>None\<close> when the field is not a number.
\<close>

datatype raw_options = NoOptions | OptionArray "jstring list" | OptionText jstring

record RawQuestion =
  rq_id :: jstring
  rq_type :: jstring
  rq_question :: jstring
  rq_options :: raw_options
  rq_correctAnswer :: jstring
  rq_explanation :: jstring
  rq_difficulty :: jstring
  rq_concept :: jstring
  rq_points :: "int option"

text \<open>The literals of the source outside ASCII, as UTF-16 code units.\<close>

definition option_A :: jstring where \<comment> \<open>"xuanxiang A": option A\<close>
  "option_A = [36873, 39033, 65]"
definition option_B :: jstring where
  "option_B = [36873, 39033, 66]"
definition option_C :: jstring where
  "option_C = [36873, 39033, 67]"
definition option_D :: jstring where
  "option_D = [36873, 39033, 68]"
definition answer_true :: jstring where \<comment> \<open>"zhengque": correct\<close>
  "answer_true = [27491, 30830]"
definition answer_false :: jstring where \<comment> \<open>"cuowu": wrong\<close>
  "answer_false = [38169, 35823]"
definition question_prefix :: jstring where \<comment> \<open>"timu ": question, then a space\<close>
  "question_prefix = [39064, 30446, 32]"
definition no_explanation :: jstring where \<comment> \<open>"zanwu jieshi": no explanation yet\<close>
  "no_explanation = [26242, 26080, 35299, 37322]"
definition basic_concept :: jstring where \<comment> \<open>"jichu gainian": basic concept\<close>
  "basic_concept = [22522, 30784, 27010, 24565]"

definition default_options :: "jstring list" where
  "default_options = [option_A, option_B, option_C, option_D]"

text \<open>\<open>a || b\<close> on strings: the empty string is falsy.\<close>

definition or_else :: "jstring \<Rightarrow> jstring \<Rightarrow> jstring" where
  "or_else a b = (if a \<noteq> [] then a else b)"

text \<open>\<open>question.options?.[0]\<close>: the first entry of an array, the first code unit of a
  string, and \<open>undefined\<close> (here the empty string, which \<open>||\<close> treats alike) when there
  is none.\<close>

definition first_option :: "raw_options \<Rightarrow> jstring" where
  "first_option os =
     (case os of
        OptionArray (x # _) \<Rightarrow> x
      | OptionText (c # _) \<Rightarrow> [c]
      | _ \<Rightarrow> [])"

text \<open>\<open>QuizAgent.validateAndNormalizeQuestion\<close>: the object literal first, then the three
  checks by question type, in the order of the source.\<close>

definition validateAndNormalizeQuestion :: "RawQuestion \<Rightarrow> nat \<Rightarrow> QuizQuestion" where
  "validateAndNormalizeQuestion question index =
     (let normalized =
            \<lparr> qq_id = or_else (rq_id question) (asc ''q'' @ show_nat index),
              qq_type = or_else (rq_type question) (asc ''multiple_choice''),
              qq_question =
                cleanText (or_else (rq_question question) (question_prefix @ show_nat index)),
              qq_options =
                Some (case rq_options question of
                        OptionArray os \<Rightarrow> map cleanText os
                      | _ \<Rightarrow> default_options),
              qq_correctAnswer =
                cleanText (or_else (rq_correctAnswer question)
                             (or_else (first_option (rq_options question)) option_A)),
              qq_explanation = cleanText (or_else (rq_explanation question) no_explanation),
              qq_difficulty =
                (if rq_difficulty question \<in> set [asc ''easy'', asc ''medium'', asc ''hard'']
                 then rq_difficulty question else asc ''medium''),
              qq_concept = cleanText (or_else (rq_concept question) basic_concept),
              qq_points =
                (case rq_points question of
                   Some p \<Rightarrow> if p > 0 then Some p else Some 1
                 | None \<Rightarrow> Some 1) \<rparr>;
          normalized1 =
            (if qq_type normalized = asc ''multiple_choice''
                \<and> length (case qq_options normalized of Some os \<Rightarrow> os | None \<Rightarrow> []) < 2
             then normalized\<lparr> qq_options := Some default_options, qq_correctAnswer := option_A \<rparr>
             else normalized);
          normalized2 =
            (if qq_type normalized1 = asc ''true_false''
             then (let n = normalized1\<lparr> qq_options := Some [answer_true, answer_false] \<rparr>
                   in if qq_correctAnswer n \<notin> set [answer_true, answer_false]
                      then n\<lparr> qq_correctAnswer := answer_true \<rparr> else n)
             else normalized1);
          normalized3 =
            (if qq_type normalized2 = asc ''fill_blank''
             then (let n = normalized2\<lparr> qq_options := Some [] \<rparr>
                   in if \<not> str_includes (qq_question n) (asc ''_____'')
                      then n\<lparr> qq_question := qq_question n @ asc '' _____'' \<rparr> else n)
             else normalized2)
      in normalized3)"

text \<open>A raw multiple-choice question whose answer is none of its options, as a model
  may return it (for instance the answer's letter instead of its text).\<close>

definition raw_capital :: RawQuestion where
  "raw_capital =
     \<lparr> rq_id = asc ''q1'', rq_type = asc ''multiple_choice'',
       rq_question = asc ''Which city is the capital of France?'',
       rq_options = OptionArray [asc ''Paris'', asc ''London'', asc ''Rome''],
       rq_correctAnswer = asc ''A'',
       rq_explanation = asc ''Paris is the capital.'', rq_difficulty = asc ''easy'',
       rq_concept = asc ''geography'', rq_points = Some 1 \<rparr>"

subsection \<open>Multiple-choice questions after normalization\<close>

lemma validateAndNormalizeQuestion_two_options:
  "qq_type (validateAndNormalizeQuestion q i) = asc ''multiple_choice'' \<Longrightarrow>
   \<exists>os. qq_options (validateAndNormalizeQuestion q i) = Some os \<and> 2 \<le> length os"
  by (auto simp: validateAndNormalizeQuestion_def Let_def asc_def default_options_def
      split: if_splits option.splits raw_options.splits)

text \<open>
  Claim C6. Every question of type \<open>multiple_choice\<close> in the output of
  \<open>validateAndNormalizeQuestion\<close> has at least two options and a \<open>correctAnswer\<close> among
  its options. The first half holds (the lemma above). The second fails: with two or
  more options the answer is never compared with them, and the sample question comes
  out with type \<open>multiple_choice\<close>, three options and the answer \<open>A\<close>, which is none
  of them.
\<close>

theorem validateAndNormalizeQuestion_answer_outside_options:
  "qq_type (validateAndNormalizeQuestion raw_capital 1) = asc ''multiple_choice''
   \<and> qq_options (validateAndNormalizeQuestion raw_capital 1)
       = Some [asc ''Paris'', asc ''London'', asc ''Rome'']
   \<and> qq_correctAnswer (validateAndNormalizeQuestion raw_capital 1) = asc ''A''
   \<and> asc ''A'' \<notin> set [asc ''Paris'', asc ''London'', asc ''Rome'']"
  by (simp add: validateAndNormalizeQuestion_def raw_capital_def Let_def or_else_def asc_def
      cleanText_def trim_def is_space_def first_option_def)


section \<open>Learning-path planner: optimization\<close>

record LearningStep =
  ls_step :: jstring
  ls_time :: jstring
  ls_code :: "jstring option"
  ls_description :: jstring
  ls_prerequisites :: "jstring list option"
  ls_resources :: "jstring list option"

datatype UserLevel = beginner | advanced

definition minutes :: jstring where \<comment> \<open>"fenzhong": minutes\<close>
  "minutes = [20998, 38047]"
definition hours :: jstring where \<comment> \<open>"xiaoshi": hours\<close>
  "hours = [23567, 26102]"

text \<open>
  \<open>LearningPathAgent.normalizeTimeEstimate\<close>. The number is an IEEE double in the
  source. For a number up to \<open>10\<^sup>1\<^sup>5\<close> the products \<open>number * 1.2\<close> and \<open>number * 0.8\<close>
  are off by less than \<open>0.2\<close>, so \<open>Math.ceil\<close> of them is the exact ceiling of \<open>6n/5\<close>
  and of \<open>4n/5\<close>, which is what the model computes on natural numbers. A longer digit
  run is outside the model: there the source rounds (and from \<open>10\<^sup>2\<^sup>1\<close> on prints the
  number with an exponent), and the model goes on with exact arithmetic. Both branches
  of the unit test return the same text, as in the source.
\<close>

definition normalizeTimeEstimate :: "jstring \<Rightarrow> UserLevel \<Rightarrow> jstring" where
  "normalizeTimeEstimate time userLevel =
     (if time = [] \<or> length (trim time) = 0
      then (if userLevel = beginner then asc ''45'' @ minutes else asc ''30'' @ minutes)
      else
        (case match_digits time of
           None \<Rightarrow> (if userLevel = beginner then asc ''45'' @ minutes else asc ''30'' @ minutes)
         | Some numberMatch \<Rightarrow>
             (let number = parseInt numberMatch;
                  adjustedNumber =
                    (if userLevel = beginner
                     then max 30 ((6 * number + 4) div 5)
                     else max 15 ((4 * number + 4) div 5))
              in if str_includes time hours \<or> str_includes time (asc ''hour'')
                 then show_nat adjustedNumber @ minutes
                 else show_nat adjustedNumber @ minutes)))"

text \<open>\<open>LearningPathAgent.addDefaultSteps\<close>: three generic steps for a beginner, two
  for an advanced user, appended and cut at eight.\<close>

definition default_step :: "jstring \<Rightarrow> jstring \<Rightarrow> jstring \<Rightarrow> LearningStep" where
  "default_step s t d =
     \<lparr> ls_step = s, ls_time = t, ls_code = None, ls_description = d,
       ls_prerequisites = Some [], ls_resources = Some [] \<rparr>"

definition defaultSteps :: "UserLevel \<Rightarrow> LearningStep list" where
  "defaultSteps userLevel =
     (if userLevel = beginner then
        [ default_step
            [29615, 22659, 20934, 22791, 21644, 22522, 30784, 35774, 32622]
            (asc ''30'' @ minutes)
            [23433, 35013, 24517, 35201, 30340, 24320, 21457, 29615, 22659, 21644, 24037,
             20855, 65292, 37197, 32622, 22522, 26412, 35774, 32622],
          default_step
            [26680, 24515, 27010, 24565, 29702, 35299]
            (asc ''45'' @ minutes)
            [23398, 20064, 21644, 29702, 35299, 22522, 30784, 27010, 24565, 65292, 25484,
             25569, 22522, 26412, 21407, 29702],
          default_step
            [23454, 36341, 32451, 20064]
            (asc ''60'' @ minutes)
            [36890, 36807, 23454, 38469, 32451, 20064, 24041, 22266, 25152, 23398, 30693,
             35782] ]
      else
        [ default_step
            [39640, 32423, 29305, 24615, 25506, 32034]
            (asc ''30'' @ minutes)
            [28145, 20837, 20102, 35299, 39640, 32423, 21151, 33021, 21644, 29305, 24615],
          default_step
            [26368, 20339, 23454, 36341, 24212, 29992]
            (asc ''45'' @ minutes)
            [23398, 20064, 21644, 24212, 29992, 34892, 19994, 26368, 20339, 23454, 36341] ])"

definition addDefaultSteps :: "LearningStep list \<Rightarrow> UserLevel \<Rightarrow> LearningStep list" where
  "addDefaultSteps existingSteps userLevel = slice0 (existingSteps @ defaultSteps userLevel) 8"

text \<open>\<open>LearningPathAgent.optimizeLearningPath\<close>.\<close>

definition optimizeLearningPath :: "LearningStep list \<Rightarrow> UserLevel \<Rightarrow> LearningStep list" where
  "optimizeLearningPath steps userLevel =
     (let optimizedSteps =
            map (\<lambda>step. step\<lparr> ls_step := substring0 (cleanText (ls_step step)) 100,
                              ls_description := substring0 (cleanText (ls_description step)) 500,
                              ls_time := normalizeTimeEstimate (ls_time step) userLevel \<rparr>)
              (filter (\<lambda>step. ls_description step \<noteq> [] \<and> length (trim (ls_description step)) > 10)
                 (filter (\<lambda>step. ls_step step \<noteq> [] \<and> length (trim (ls_step step)) > 0) steps));
          optimizedSteps1 =
            (if length optimizedSteps > 8 then slice0 optimizedSteps 8
             else if length optimizedSteps < 3 then addDefaultSteps optimizedSteps userLevel
             else optimizedSteps)
      in map (\<lambda>(index, step).
                step\<lparr> ls_step :=
                  (if startsWith (ls_step step) (show_nat (index + 1) @ asc ''.'')
                   then ls_step step
                   else show_nat (index + 1) @ asc ''. '' @ ls_step step) \<rparr>)
           (enumerate 0 optimizedSteps1))"

subsection \<open>Size and time unit of an optimized path\<close>

lemma length_optimizeLearningPath_le: "length (optimizeLearningPath steps lv) \<le> 8"
  by (auto simp: optimizeLearningPath_def Let_def addDefaultSteps_def slice0_def)

lemma length_optimizeLearningPath_beginner: "3 \<le> length (optimizeLearningPath steps beginner)"
  by (auto simp: optimizeLearningPath_def Let_def addDefaultSteps_def slice0_def defaultSteps_def)

text \<open>
  Claim C8. The optimized learning path has between 3 and 8 entries, each with a time in
  minutes. The upper bound holds, and the lower bound holds for a beginner (the two
  lemmas above); for an advanced user only two generic steps are appended, so a
  response with no valid step gives a path of two entries.
\<close>

theorem optimizeLearningPath_advanced_empty:
  "length (optimizeLearningPath [] advanced) = 2
   \<and> map ls_time (optimizeLearningPath [] advanced) = [asc ''30'' @ minutes, asc ''45'' @ minutes]"
  by (simp add: optimizeLearningPath_def addDefaultSteps_def defaultSteps_def slice0_def
      default_step_def)


section \<open>Agent contract: \<open>BaseAgent.execute\<close>\<close>

datatype AgentStatus = idle | running | error

datatype AgentEventType = STARTED | COMPLETED | ERROR | PROGRESS

record AgentConfig =
  cfg_name :: jstring
  cfg_description :: jstring
  cfg_maxRetries :: "int option"
  cfg_timeout :: "nat option"

text \<open>\<open>AgentResult<T>\<close>. Of \<open>metadata\<close> the field \<open>attempts\<close> is kept;
  \<open>executionTime\<close> is a reading of the clock.\<close>

record 'a AgentResult =
  ar_success :: bool
  ar_data :: "'a option"
  ar_error :: "jstring option"
  ar_attempts :: "nat option"

text \<open>
  What \<open>execute\<close> does to the world, in the order it does it: the events it emits (with
  the error text of an \<open>error\<close> event), the calls of \<open>doExecute\<close> (with the attempt
  number) and the waits of \<open>delay\<close> (in milliseconds).
\<close>

datatype effect = Emit AgentEventType "jstring option" | Attempt nat | Delay nat

text \<open>
  One call of \<open>doExecute\<close>, as the timeout race sees it: the promise fulfils or rejects
  after some milliseconds, or it never settles.
\<close>

datatype 'a outcome = Resolves 'a nat | Rejects jstring nat | Never

text \<open>The delay \<open>setTimeout\<close> really waits: a delay above \<open>2147483647\<close> or below \<open>1\<close>
  is replaced by \<open>1\<close>.\<close>

definition timer_delay :: "nat \<Rightarrow> nat" where
  "timer_delay ms = (if ms > 2147483647 \<or> ms < 1 then 1 else ms)"

text \<open>\<open>BaseAgent.executeWithTimeout\<close>: \<open>Promise.race\<close> of the operation and a timer that
  rejects after \<open>timeout\<close> milliseconds. The operation is started before the timer, so
  an operation that settles at the very moment the timer is due settles first and wins
  the race. \<open>Inl\<close> is the message of the rejection.\<close>

definition executeWithTimeout :: "'a outcome \<Rightarrow> nat \<Rightarrow> jstring + 'a" where
  "executeWithTimeout operation timeout_ms =
     (let timed_out = Inl (asc ''Operation timeout after '' @ show_nat timeout_ms @ asc ''ms'')
      in case operation of
           Resolves v t \<Rightarrow> if t \<le> timer_delay timeout_ms then Inr v else timed_out
         | Rejects m t \<Rightarrow> if t \<le> timer_delay timeout_ms then Inl m else timed_out
         | Never \<Rightarrow> timed_out)"

text \<open>\<open>`${n}`\<close> for an integer.\<close>

definition show_int :: "int \<Rightarrow> jstring" where
  "show_int i = (if i < 0 then asc ''-'' @ show_nat (nat (- i)) else show_nat (nat i))"

record 'a execution =
  ex_result :: "'a AgentResult"
  ex_status :: AgentStatus
  ex_effects :: "effect list"

text \<open>
  The retry loop of \<open>execute\<close>:
  \<^verbatim>\<open>for (let attempt = 1; attempt <= maxRetries; attempt++) { try {...} catch {...} }\<close>
  and what follows it. \<open>doExecute\<close> gives the outcome of the attempt with a given
  number; \<open>lastError\<close> is the message of the last rejection (\<open>None\<close> for \<open>null\<close>).
\<close>

function retry_loop ::
  "jstring \<Rightarrow> nat \<Rightarrow> int \<Rightarrow> (nat \<Rightarrow> 'a outcome) \<Rightarrow> nat \<Rightarrow> jstring option \<Rightarrow> effect list
     \<Rightarrow> 'a execution" where
  "retry_loop agentName timeout_ms maxRetries_n doExecute attempt lastError effects =
     (if int attempt \<le> maxRetries_n then
        (case executeWithTimeout (doExecute attempt) timeout_ms of
           Inr result \<Rightarrow>
             \<lparr> ex_result = \<lparr> ar_success = True, ar_data = Some result, ar_error = None,
                              ar_attempts = Some attempt \<rparr>,
               ex_status = idle,
               ex_effects = effects @ [Attempt attempt, Emit COMPLETED None] \<rparr>
         | Inl message \<Rightarrow>
             retry_loop agentName timeout_ms maxRetries_n doExecute (Suc attempt) (Some message)
               (effects @ [Attempt attempt]
                  @ (if int attempt < maxRetries_n then [Delay (1000 * attempt)] else [])))
      else
        (let errorMessage =
               asc ''Agent '' @ agentName @ asc '' failed after '' @ show_int maxRetries_n
                 @ asc '' attempts: ''
                 @ (case lastError of Some m \<Rightarrow> m | None \<Rightarrow> asc ''undefined'')
         in \<lparr> ex_result = \<lparr> ar_success = False, ar_data = None, ar_error = Some errorMessage,
                             ar_attempts = None \<rparr>,
              ex_status = error,
              ex_effects = effects @ [Emit ERROR (Some errorMessage)] \<rparr>))"
  by pat_completeness auto
termination
  by (relation "measure (\<lambda>(agentName, timeout_ms, maxRetries_n, doExecute, attempt, lastError, effects).
                  nat (maxRetries_n + 1 - int attempt))") auto

declare retry_loop.simps [simp del]

text \<open>\<open>this.config.maxRetries || 3\<close> and \<open>this.config.timeout || 30000\<close>: a missing
  value and the value \<open>0\<close> are both falsy.\<close>

definition effective_maxRetries :: "AgentConfig \<Rightarrow> int" where
  "effective_maxRetries config =
     (case cfg_maxRetries config of None \<Rightarrow> 3 | Some n \<Rightarrow> if n = 0 then 3 else n)"

definition effective_timeout :: "AgentConfig \<Rightarrow> nat" where
  "effective_timeout config =
     (case cfg_timeout config of None \<Rightarrow> 30000 | Some t \<Rightarrow> if t = 0 then 30000 else t)"

text \<open>
  \<open>BaseAgent.execute\<close>. \<open>validateInput\<close> is the abstract method's answer on the input,
  \<open>initializeLLM\<close> the message of the error \<open>initializeLLM\<close> throws, if it throws:
  that error is not caught, so \<open>execute\<close> rejects with it (\<open>Inl\<close>). A rejected input
  leaves the status as it was.
\<close>

definition execute ::
  "AgentConfig \<Rightarrow> AgentStatus \<Rightarrow> bool \<Rightarrow> jstring option \<Rightarrow> (nat \<Rightarrow> 'a outcome)
     \<Rightarrow> jstring + 'a execution" where
  "execute config status validateInput initializeLLM doExecute =
     (if \<not> validateInput then
        Inr \<lparr> ex_result = \<lparr> ar_success = False, ar_data = None,
                             ar_error = Some (asc ''Invalid input for agent '' @ cfg_name config),
                             ar_attempts = None \<rparr>,
              ex_status = status, ex_effects = [] \<rparr>
      else
        (case initializeLLM of
           Some message \<Rightarrow> Inl message
         | None \<Rightarrow>
             Inr (retry_loop (cfg_name config) (effective_timeout config)
                    (effective_maxRetries config) doExecute 1 None [Emit STARTED None])))"

text \<open>The calls of \<open>doExecute\<close> and the waits among the effects of a run.\<close>

definition attempts_made :: "effect list \<Rightarrow> nat list" where
  "attempts_made es = concat (map (\<lambda>e. case e of Attempt k \<Rightarrow> [k] | _ \<Rightarrow> []) es)"

definition delays_waited :: "effect list \<Rightarrow> nat list" where
  "delays_waited es = concat (map (\<lambda>e. case e of Delay ms \<Rightarrow> [ms] | _ \<Rightarrow> []) es)"

text \<open>The effects of failing attempts \<open>a, a + 1, ..., N\<close>: each attempt, and a wait of
  \<open>1000 * attempt\<close> milliseconds after every attempt but the last.\<close>

definition failing_effects :: "nat \<Rightarrow> nat \<Rightarrow> effect list" where
  "failing_effects a N =
     concat (map (\<lambda>k. Attempt k # (if k < N then [Delay (1000 * k)] else [])) [a..<Suc N])"

definition failure_message :: "jstring \<Rightarrow> nat \<Rightarrow> jstring \<Rightarrow> jstring" where
  "failure_message agentName N m =
     asc ''Agent '' @ agentName @ asc '' failed after '' @ show_nat N @ asc '' attempts: '' @ m"

lemma retry_loop_all_fail:
  assumes fails: "\<And>k. a \<le> k \<Longrightarrow> k \<le> N \<Longrightarrow> executeWithTimeout (doExecute k) t = Inl (msg k)"
    and a: "a \<le> Suc N"
  shows "retry_loop nm t (int N) doExecute a lastError effects =
           (let m = (if a \<le> N then msg N else (case lastError of Some m \<Rightarrow> m | None \<Rightarrow> asc ''undefined''))
            in \<lparr> ex_result = \<lparr> ar_success = False, ar_data = None,
                       ar_error = Some (failure_message nm N m), ar_attempts = None \<rparr>,
                 ex_status = error,
                 ex_effects = effects @ failing_effects a N @ [Emit ERROR (Some (failure_message nm N m))] \<rparr>)"
  using assms
proof (induction "Suc N - a" arbitrary: a lastError effects)
  case 0
  then have "a = Suc N" by simp
  then show ?case
    by (subst retry_loop.simps) (simp add: failing_effects_def failure_message_def show_int_def Let_def)
next
  case (Suc d)
  then have le: "a \<le> N" by simp
  have step: "executeWithTimeout (doExecute a) t = Inl (msg a)"
    using Suc.prems(1)[of a] le by simp
  have IH: "retry_loop nm t (int N) doExecute (Suc a) (Some (msg a))
              (effects @ [Attempt a] @ (if int a < int N then [Delay (1000 * a)] else [])) =
           (let m = (if Suc a \<le> N then msg N else msg a)
            in \<lparr> ex_result = \<lparr> ar_success = False, ar_data = None,
                       ar_error = Some (failure_message nm N m), ar_attempts = None \<rparr>,
                 ex_status = error,
                 ex_effects = (effects @ [Attempt a] @ (if int a < int N then [Delay (1000 * a)] else []))
                     @ failing_effects (Suc a) N @ [Emit ERROR (Some (failure_message nm N m))] \<rparr>)"
    using Suc.hyps(1)[of "Suc a" "Some (msg a)"] Suc.hyps(2) Suc.prems(1) le by simp
  have m_eq: "(if Suc a \<le> N then msg N else msg a) = msg N"
    using le by (cases "Suc a \<le> N") (auto simp: le_antisym not_less_eq_eq)
  have fe: "failing_effects a N = (Attempt a # (if a < N then [Delay (1000 * a)] else [])) @ failing_effects (Suc a) N"
    using le by (simp add: failing_effects_def upt_conv_Cons)
  show ?case
    by (subst retry_loop.simps) (use le step IH m_eq fe in \<open>simp add: Let_def\<close>)
qed

lemma attempts_failing_effects: "attempts_made (failing_effects a N) = [a..<Suc N]"
proof -
  have "attempts_made (concat (map (\<lambda>k. Attempt k # (if k < N then [Delay (1000 * k)] else [])) ks)) = ks" for ks
    by (induction ks) (auto simp: attempts_made_def)
  then show ?thesis by (simp add: failing_effects_def)
qed

lemma delays_failing_effects: "delays_waited (failing_effects a N) = map (\<lambda>k. 1000 * k) [a..<N]"
proof -
  have "delays_waited (concat (map (\<lambda>k. Attempt k # (if k < N then [Delay (1000 * k)] else [])) ks))
          = map (\<lambda>k. 1000 * k) (filter (\<lambda>k. k < N) ks)" for ks
    by (induction ks) (auto simp: delays_waited_def)
  moreover have "filter (\<lambda>k. k < N) [a..<Suc N] = [a..<N]"
    by (induction N) auto
  ultimately show ?thesis by (simp add: failing_effects_def)
qed

text \<open>An agent configured with \<open>maxRetries = 0\<close> (and one with \<open>maxRetries = 2\<close>) whose
  \<open>doExecute\<close> rejects every time after 5 ms, under the default timeout.\<close>

definition config_zero :: AgentConfig where
  "config_zero = \<lparr> cfg_name = asc ''Demo'', cfg_description = asc ''demo agent'',
                    cfg_maxRetries = Some 0, cfg_timeout = None \<rparr>"

definition config_two :: AgentConfig where
  "config_two = \<lparr> cfg_name = asc ''Demo'', cfg_description = asc ''demo agent'',
                   cfg_maxRetries = Some 2, cfg_timeout = None \<rparr>"

definition always_rejects :: "nat \<Rightarrow> unit outcome" where
  "always_rejects attempt = Rejects (asc ''boom'') 5"

lemma show_nat_digit: "n < 10 \<Longrightarrow> show_nat n = [48 + n]"
  by (simp add: show_nat.simps)

text \<open>
  Claim C1, as stated, at \<open>maxRetries = 0\<close>: the configured value is falsy, the default
  3 replaces it, and an agent that always fails makes three attempts, not zero.
\<close>

theorem execute_zero_maxRetries_counterexample:
  "cfg_maxRetries config_zero = Some 0
   \<and> execute config_zero idle True None always_rejects =
       Inr \<lparr> ex_result = \<lparr> ar_success = False, ar_data = None,
                    ar_error = Some (asc ''Agent Demo failed after 3 attempts: boom''),
                    ar_attempts = None \<rparr>,
             ex_status = error,
             ex_effects = [Emit STARTED None, Attempt 1, Delay 1000, Attempt 2, Delay 2000,
                           Attempt 3,
                           Emit ERROR (Some (asc ''Agent Demo failed after 3 attempts: boom''))] \<rparr>"
proof -
  have f: "executeWithTimeout (always_rejects k) 30000 = Inl (asc ''boom'')" for k
    by (simp add: executeWithTimeout_def timer_delay_def always_rejects_def)
  have "retry_loop (asc ''Demo'') 30000 (int 3) always_rejects 1 None [Emit STARTED None] =
          \<lparr> ex_result = \<lparr> ar_success = False, ar_data = None,
                    ar_error = Some (asc ''Agent Demo failed after 3 attempts: boom''),
                    ar_attempts = None \<rparr>,
             ex_status = error,
             ex_effects = [Emit STARTED None, Attempt 1, Delay 1000, Attempt 2, Delay 2000,
                           Attempt 3,
                           Emit ERROR (Some (asc ''Agent Demo failed after 3 attempts: boom''))] \<rparr>"
    by (subst retry_loop_all_fail[where msg = "\<lambda>k. asc ''boom''"])
       (simp_all add: f failure_message_def failing_effects_def show_nat_digit asc_def upt_rec Let_def)
  then show ?thesis
    by (simp add: execute_def config_zero_def effective_maxRetries_def effective_timeout_def)
qed

text \<open>
  Claim C1, amended. For an agent configured with \<open>maxRetries = N\<close>, \<open>N \<ge> 1\<close>, whose
  input is valid and whose model is initialized: if every attempt \<open>1, ..., N\<close> fails (it
  rejects, or the timeout wins the race), then \<open>execute\<close> makes exactly the attempts
  \<open>1, ..., N\<close>, waits \<open>1000 * attempt\<close> milliseconds after each attempt but the last,
  ends in status \<open>error\<close> and returns \<open>success = false\<close> with an error text that ends
  with the message of the last failure.
\<close>

theorem execute_retry_bound:
  fixes N :: nat
  assumes "cfg_maxRetries config = Some (int N)" and "1 \<le> N"
    and "\<forall>k. 1 \<le> k \<and> k \<le> N \<longrightarrow> isl (executeWithTimeout (doExecute k) (effective_timeout config))"
  shows "\<exists>ex. execute config status True None doExecute = Inr ex
           \<and> attempts_made (ex_effects ex) = [1..<Suc N]
           \<and> length (attempts_made (ex_effects ex)) = N
           \<and> delays_waited (ex_effects ex) = map (\<lambda>attempt. 1000 * attempt) [1..<N]
           \<and> ex_effects ex =
               [Emit STARTED None] @ failing_effects 1 N
                 @ [Emit ERROR (Some (failure_message (cfg_name config) N
                      (projl (executeWithTimeout (doExecute N) (effective_timeout config)))))]
           \<and> ex_result ex =
               \<lparr> ar_success = False, ar_data = None,
                 ar_error = Some (failure_message (cfg_name config) N
                                 (projl (executeWithTimeout (doExecute N) (effective_timeout config)))),
                 ar_attempts = None \<rparr>
           \<and> ex_status ex = error"
proof -
  let ?t = "effective_timeout config"
  let ?msg = "\<lambda>k. projl (executeWithTimeout (doExecute k) ?t)"
  have n: "effective_maxRetries config = int N"
    using assms(1,2) by (simp add: effective_maxRetries_def)
  have fails: "\<And>k. 1 \<le> k \<Longrightarrow> k \<le> N \<Longrightarrow> executeWithTimeout (doExecute k) ?t = Inl (?msg k)"
    using assms(3) by (simp add: sum.collapse(1))
  have run: "retry_loop (cfg_name config) ?t (int N) doExecute 1 None [Emit STARTED None] =
          \<lparr> ex_result = \<lparr> ar_success = False, ar_data = None,
                    ar_error = Some (failure_message (cfg_name config) N (?msg N)),
                    ar_attempts = None \<rparr>,
             ex_status = error,
             ex_effects = [Emit STARTED None] @ failing_effects 1 N
                @ [Emit ERROR (Some (failure_message (cfg_name config) N (?msg N)))] \<rparr>"
    using retry_loop_all_fail[of 1 N doExecute ?t ?msg "cfg_name config" None "[Emit STARTED None]", OF fails]
      assms(2) by (simp add: Let_def)
  have a: "attempts_made ([Emit STARTED None] @ failing_effects 1 N
                @ [Emit ERROR (Some (failure_message (cfg_name config) N (?msg N)))]) = [1..<Suc N]"
    using attempts_failing_effects[of 1 N] by (simp add: attempts_made_def)
  have d: "delays_waited ([Emit STARTED None] @ failing_effects 1 N
                @ [Emit ERROR (Some (failure_message (cfg_name config) N (?msg N)))]) = map (\<lambda>k. 1000 * k) [1..<N]"
    using delays_failing_effects[of 1 N] by (simp add: delays_waited_def)
  show ?thesis
    unfolding execute_def n
    apply (simp only: simp_thms if_False option.case run)
    apply (intro exI conjI)
          apply (rule refl)
    using a d by simp_all
qed

theorem execute_retry_bound_witness:
  "cfg_maxRetries config_two = Some (int 2) \<and> (1::nat) \<le> 2
   \<and> isl (executeWithTimeout (always_rejects 1) (effective_timeout config_two))
   \<and> isl (executeWithTimeout (always_rejects 2) (effective_timeout config_two))
   \<and> (\<exists>ex. execute config_two idle True None always_rejects = Inr ex
           \<and> attempts_made (ex_effects ex) = [1, 2]
           \<and> delays_waited (ex_effects ex) = [1000]
           \<and> ar_error (ex_result ex) = Some (asc ''Agent Demo failed after 2 attempts: boom'')
           \<and> ex_status ex = error)"
proof -
  have f: "executeWithTimeout (always_rejects k) (effective_timeout config_two) = Inl (asc ''boom'')" for k
    by (simp add: executeWithTimeout_def timer_delay_def always_rejects_def effective_timeout_def config_two_def)
  have h1: "cfg_maxRetries config_two = Some (int 2)" by (simp add: config_two_def)
  have h3: "\<forall>k. 1 \<le> k \<and> k \<le> 2 \<longrightarrow> isl (executeWithTimeout (always_rejects k) (effective_timeout config_two))"
    by (simp add: f)
  from execute_retry_bound[of config_two 2 always_rejects idle, OF h1 _ h3]
  obtain ex where ex: "execute config_two idle True None always_rejects = Inr ex"
    "attempts_made (ex_effects ex) = [1..<Suc 2]"
    "delays_waited (ex_effects ex) = map (\<lambda>attempt. 1000 * attempt) [1..<2]"
    "ex_result ex = \<lparr> ar_success = False, ar_data = None,
                 ar_error = Some (failure_message (cfg_name config_two) 2
                                 (projl (executeWithTimeout (always_rejects 2) (effective_timeout config_two)))),
                 ar_attempts = None \<rparr>"
    "ex_status ex = error"
    by auto
  have m: "failure_message (cfg_name config_two) 2 (projl (executeWithTimeout (always_rejects 2) (effective_timeout config_two)))
            = asc ''Agent Demo failed after 2 attempts: boom''"
    unfolding f by (simp add: failure_message_def config_two_def show_nat_digit asc_def)
  show ?thesis
    using ex h1 m by (auto simp: f upt_rec)
qed


section \<open>Workflow executor: state and steps\<close>

text \<open>\<open>DocumentContent\<close>; its optional \<open>metadata\<close> is read by none of the functions
  modelled here and is left out.\<close>

record DocumentContent =
  dc_title :: jstring
  dc_content :: jstring
  dc_url :: jstring

datatype WorkflowStepType =
  parse_document | extract_keypoints | generate_learning_path | generate_quiz | answer_question

definition stepType_text :: "WorkflowStepType \<Rightarrow> jstring" where
  "stepType_text t =
     (case t of
        parse_document \<Rightarrow> asc ''parse_document''
      | extract_keypoints \<Rightarrow> asc ''extract_keypoints''
      | generate_learning_path \<Rightarrow> asc ''generate_learning_path''
      | generate_quiz \<Rightarrow> asc ''generate_quiz''
      | answer_question \<Rightarrow> asc ''answer_question'')"

datatype StateUserLevel = level_beginner | level_intermediate | level_advanced

text \<open>\<open>WorkflowState\<close>: every field is optional, \<open>None\<close> is \<open>undefined\<close>.\<close>

record WorkflowState =
  ws_url :: "jstring option"
  ws_documentContent :: "DocumentContent option"
  ws_keyPoints :: "KeyPoint list option"
  ws_question :: "jstring option"
  ws_userLevel :: "StateUserLevel option"
  ws_questionCount :: "int option"
  ws_conversationHistory :: "(jstring \<times> jstring) list option"
  ws_parsedDocument :: "DocumentContent option"
  ws_extractedKeyPoints :: "KeyPoint list option"
  ws_generatedLearningPath :: "LearningStep list option"
  ws_generatedQuiz :: "QuizQuestion list option"
  ws_answer :: "jstring option"
  ws_errors :: "jstring list option"
  ws_currentStep :: "jstring option"
  ws_sessionId :: "jstring option"
  ws_completed :: "bool option"

text \<open>
  \<open>Partial<WorkflowState>\<close> as a step returns it: for each field a step can set, \<open>None\<close>
  when the object has no such key and \<open>Some v\<close> when it has the key with value \<open>v\<close>
  (which may itself be \<open>undefined\<close>).
\<close>

record WorkflowPatch =
  p_parsedDocument :: "DocumentContent option option"
  p_documentContent :: "DocumentContent option option"
  p_extractedKeyPoints :: "KeyPoint list option option"
  p_keyPoints :: "KeyPoint list option option"
  p_generatedLearningPath :: "LearningStep list option option"
  p_generatedQuiz :: "QuizQuestion list option option"
  p_answer :: "jstring option option"
  p_currentStep :: "jstring option option"
  p_errors :: "jstring list option option"

definition empty_patch :: WorkflowPatch where
  "empty_patch =
     \<lparr> p_parsedDocument = None, p_documentContent = None, p_extractedKeyPoints = None,
       p_keyPoints = None, p_generatedLearningPath = None, p_generatedQuiz = None,
       p_answer = None, p_currentStep = None, p_errors = None \<rparr>"

definition merge_field :: "'a option \<Rightarrow> 'a option option \<Rightarrow> 'a option" where
  "merge_field old new = (case new of None \<Rightarrow> old | Some v \<Rightarrow> v)"

text \<open>\<open>{ ...state, ...stepResult }\<close>.\<close>

definition merge :: "WorkflowState \<Rightarrow> WorkflowPatch \<Rightarrow> WorkflowState" where
  "merge state stepResult =
     state\<lparr> ws_parsedDocument := merge_field (ws_parsedDocument state) (p_parsedDocument stepResult),
            ws_documentContent := merge_field (ws_documentContent state) (p_documentContent stepResult),
            ws_extractedKeyPoints :=
              merge_field (ws_extractedKeyPoints state) (p_extractedKeyPoints stepResult),
            ws_keyPoints := merge_field (ws_keyPoints state) (p_keyPoints stepResult),
            ws_generatedLearningPath :=
              merge_field (ws_generatedLearningPath state) (p_generatedLearningPath stepResult),
            ws_generatedQuiz := merge_field (ws_generatedQuiz state) (p_generatedQuiz stepResult),
            ws_answer := merge_field (ws_answer state) (p_answer stepResult),
            ws_currentStep := merge_field (ws_currentStep state) (p_currentStep stepResult),
            ws_errors := merge_field (ws_errors state) (p_errors stepResult) \<rparr>"

text \<open>\<open>state.errors || []\<close>.\<close>

definition errors_of :: "WorkflowState \<Rightarrow> jstring list" where
  "errors_of state = (case ws_errors state of None \<Rightarrow> [] | Some es \<Rightarrow> es)"

record WorkflowStep =
  step_id :: jstring
  step_type :: WorkflowStepType
  step_condition :: "(WorkflowState \<Rightarrow> bool) option"
  step_dependencies :: "jstring list option"

record WorkflowDefinition =
  wf_id :: jstring
  wf_name :: jstring
  wf_steps :: "WorkflowStep list"
  wf_entryPoint :: jstring

definition simple_step :: "string \<Rightarrow> WorkflowStepType \<Rightarrow> string list option \<Rightarrow> WorkflowStep" where
  "simple_step i t deps =
     \<lparr> step_id = asc i, step_type = t, step_condition = None,
       step_dependencies = map_option (map asc) deps \<rparr>"





definition full_pipeline :: WorkflowDefinition where
  "full_pipeline =
     \<lparr> wf_id = asc ''full_pipeline'', wf_name = asc ''Full Learning Pipeline'',
       wf_steps = [ simple_step ''parse'' parse_document None,
                    simple_step ''extract'' extract_keypoints (Some [''parse'']),
                    simple_step ''generate_path'' generate_learning_path (Some [''extract'']),
                    \<lparr> step_id = asc ''generate_quiz'', step_type = generate_quiz,
                      step_condition =
                        Some (\<lambda>state. (case ws_questionCount state of
                                           None \<Rightarrow> 0 | Some n \<Rightarrow> n) > 0),
                      step_dependencies = Some [asc ''extract''] \<rparr> ],
       wf_entryPoint = asc ''parse'' \<rparr>"


section \<open>Workflow executor: one step\<close>

record AgentContext =
  ctx_sessionId :: jstring
  ctx_userLevel :: UserLevel
  ctx_documentContent :: "jstring option"
  ctx_dialogHistory :: "(jstring \<times> jstring) list"

text \<open>
  The five agents, as the executor sees them: \<open>execute(input, context)\<close> resolves to an
  \<open>AgentResult\<close>, or rejects with an error (\<open>Inl\<close> its message; \<open>BaseAgent.execute\<close>
  rejects when the model cannot be initialized). The fields of each input object are the
  arguments, in the order of the source.
\<close>

record Agents =
  documentParser :: "jstring \<Rightarrow> AgentContext \<Rightarrow> jstring + DocumentContent AgentResult"
  keyPointExtractor ::
    "DocumentContent \<Rightarrow> UserLevel \<Rightarrow> AgentContext \<Rightarrow> jstring + KeyPoint list AgentResult"
  learningPathAgent ::
    "KeyPoint list \<Rightarrow> UserLevel \<Rightarrow> AgentContext \<Rightarrow> jstring + LearningStep list AgentResult"
  quizAgent ::
    "KeyPoint list \<Rightarrow> DocumentContent option \<Rightarrow> int \<Rightarrow> UserLevel \<Rightarrow> AgentContext
       \<Rightarrow> jstring + QuizQuestion list AgentResult"
  qaAgent ::
    "jstring \<Rightarrow> DocumentContent \<Rightarrow> (jstring \<times> jstring) list \<Rightarrow> AgentContext
       \<Rightarrow> jstring + jstring AgentResult"

definition normalizeUserLevel :: "StateUserLevel option \<Rightarrow> UserLevel" where
  "normalizeUserLevel userLevel = (if userLevel = Some level_advanced then advanced else beginner)"

text \<open>\<open>a || b\<close> on optional objects and arrays (always truthy when defined), and the
  truthiness of an optional string.\<close>

definition or_option :: "'a option \<Rightarrow> 'a option \<Rightarrow> 'a option" where
  "or_option a b = (case a of Some x \<Rightarrow> Some x | None \<Rightarrow> b)"

definition truthy_str :: "jstring option \<Rightarrow> bool" where
  "truthy_str s = (case s of Some x \<Rightarrow> x \<noteq> [] | None \<Rightarrow> False)"

text \<open>\<open>s || fallback\<close> for an optional string \<open>s\<close>.\<close>

definition or_default :: "jstring option \<Rightarrow> jstring \<Rightarrow> jstring" where
  "or_default s fallback = (case s of Some x \<Rightarrow> if x \<noteq> [] then x else fallback | None \<Rightarrow> fallback)"

text \<open>\<open>if (!result.success) throw new Error(result.error || fallback)\<close>, after the
  \<open>await\<close> of the agent.\<close>

definition checked :: "(jstring + 'a AgentResult) \<Rightarrow> jstring \<Rightarrow> jstring + 'a AgentResult" where
  "checked awaited fallback =
     (case awaited of
        Inl message \<Rightarrow> Inl message
      | Inr result \<Rightarrow>
          if \<not> ar_success result
          then Inl (or_default (ar_error result) fallback)
          else Inr result)"

definition executeParseDocument ::
  "Agents \<Rightarrow> WorkflowState \<Rightarrow> AgentContext \<Rightarrow> jstring + WorkflowPatch" where
  "executeParseDocument agents state context =
     (if \<not> truthy_str (ws_url state) then Inl (asc ''URL is required for document parsing'')
      else
        (case checked (documentParser agents (or_default (ws_url state) []) context)
                (asc ''Document parsing failed'') of
           Inl message \<Rightarrow> Inl message
         | Inr result \<Rightarrow>
             Inr (empty_patch\<lparr> p_parsedDocument := Some (ar_data result),
                               p_documentContent := Some (ar_data result),
                               p_currentStep := Some (Some (asc ''document_parsed'')) \<rparr>)))"

definition executeExtractKeypoints ::
  "Agents \<Rightarrow> WorkflowState \<Rightarrow> AgentContext \<Rightarrow> jstring + WorkflowPatch" where
  "executeExtractKeypoints agents state context =
     (case or_option (ws_parsedDocument state) (ws_documentContent state) of
        None \<Rightarrow> Inl (asc ''Document content is required for key point extraction'')
      | Some documentContent \<Rightarrow>
          (case checked (keyPointExtractor agents documentContent
                           (normalizeUserLevel (ws_userLevel state)) context)
                  (asc ''Key point extraction failed'') of
             Inl message \<Rightarrow> Inl message
           | Inr result \<Rightarrow>
               Inr (empty_patch\<lparr> p_extractedKeyPoints := Some (ar_data result),
                                 p_keyPoints := Some (ar_data result),
                                 p_currentStep := Some (Some (asc ''keypoints_extracted'')) \<rparr>)))"

definition executeGenerateLearningPath ::
  "Agents \<Rightarrow> WorkflowState \<Rightarrow> AgentContext \<Rightarrow> jstring + WorkflowPatch" where
  "executeGenerateLearningPath agents state context =
     (case or_option (ws_extractedKeyPoints state) (ws_keyPoints state) of
        None \<Rightarrow> Inl (asc ''Key points are required for learning path generation'')
      | Some keyPoints \<Rightarrow>
          if length keyPoints = 0
          then Inl (asc ''Key points are required for learning path generation'')
          else
            (case checked (learningPathAgent agents keyPoints
                             (normalizeUserLevel (ws_userLevel state)) context)
                    (asc ''Learning path generation failed'') of
               Inl message \<Rightarrow> Inl message
             | Inr result \<Rightarrow>
                 Inr (empty_patch\<lparr> p_generatedLearningPath := Some (ar_data result),
                                   p_currentStep := Some (Some (asc ''learning_path_generated'')) \<rparr>)))"

definition executeGenerateQuiz ::
  "Agents \<Rightarrow> WorkflowState \<Rightarrow> AgentContext \<Rightarrow> jstring + WorkflowPatch" where
  "executeGenerateQuiz agents state context =
     (case or_option (ws_extractedKeyPoints state) (ws_keyPoints state) of
        None \<Rightarrow> Inl (asc ''Key points are required for quiz generation'')
      | Some keyPoints \<Rightarrow>
          if length keyPoints = 0
          then Inl (asc ''Key points are required for quiz generation'')
          else
            (case checked (quizAgent agents keyPoints
                             (or_option (ws_parsedDocument state) (ws_documentContent state))
                             (case ws_questionCount state of
                                None \<Rightarrow> 5 | Some n \<Rightarrow> if n = 0 then 5 else n)
                             (normalizeUserLevel (ws_userLevel state)) context)
                    (asc ''Quiz generation failed'') of
               Inl message \<Rightarrow> Inl message
             | Inr result \<Rightarrow>
                 Inr (empty_patch\<lparr> p_generatedQuiz := Some (ar_data result),
                                   p_currentStep := Some (Some (asc ''quiz_generated'')) \<rparr>)))"

definition executeAnswerQuestion ::
  "Agents \<Rightarrow> WorkflowState \<Rightarrow> AgentContext \<Rightarrow> jstring + WorkflowPatch" where
  "executeAnswerQuestion agents state context =
     (case ws_documentContent state of
        None \<Rightarrow> Inl (asc ''Question and document content are required for QA'')
      | Some documentContent \<Rightarrow>
          if \<not> truthy_str (ws_question state)
          then Inl (asc ''Question and document content are required for QA'')
          else
            (case checked (qaAgent agents (or_default (ws_question state) []) documentContent
                             (case ws_conversationHistory state of None \<Rightarrow> [] | Some h \<Rightarrow> h)
                             context)
                    (asc ''Question answering failed'') of
               Inl message \<Rightarrow> Inl message
             | Inr result \<Rightarrow>
                 Inr (empty_patch\<lparr> p_answer := Some (ar_data result),
                                   p_currentStep := Some (Some (asc ''question_answered'')) \<rparr>)))"

text \<open>The \<open>switch\<close> inside the \<open>try\<close> of \<open>executeStep\<close>: \<open>Inl\<close> is the message of the
  error thrown. The step type is one of the five, so the \<open>default\<close> case has no input.\<close>

definition dispatch ::
  "Agents \<Rightarrow> WorkflowStepType \<Rightarrow> WorkflowState \<Rightarrow> AgentContext \<Rightarrow> jstring + WorkflowPatch" where
  "dispatch agents stepType state context =
     (case stepType of
        parse_document \<Rightarrow> executeParseDocument agents state context
      | extract_keypoints \<Rightarrow> executeExtractKeypoints agents state context
      | generate_learning_path \<Rightarrow> executeGenerateLearningPath agents state context
      | generate_quiz \<Rightarrow> executeGenerateQuiz agents state context
      | answer_question \<Rightarrow> executeAnswerQuestion agents state context)"

definition step_context :: "WorkflowState \<Rightarrow> AgentContext" where
  "step_context state =
     \<lparr> ctx_sessionId = or_default (ws_sessionId state) (asc ''default''),
       ctx_userLevel = normalizeUserLevel (ws_userLevel state),
       ctx_documentContent =
         map_option dc_content (or_option (ws_parsedDocument state) (ws_documentContent state)),
       ctx_dialogHistory = (case ws_conversationHistory state of None \<Rightarrow> [] | Some h \<Rightarrow> h) \<rparr>"

text \<open>
  \<open>SimpleWorkflowExecutor.executeStep\<close>: whatever the \<open>switch\<close> throws is caught and
  becomes a result that extends \<open>errors\<close>. The result type keeps the exception channel
  of the \<open>async\<close> function, which \<open>executeStep\<close> never uses.
\<close>

definition executeStep ::
  "Agents \<Rightarrow> WorkflowStepType \<Rightarrow> WorkflowState \<Rightarrow> jstring + WorkflowPatch" where
  "executeStep agents stepType state =
     (case dispatch agents stepType state (step_context state) of
        Inr stepResult \<Rightarrow> Inr stepResult
      | Inl message \<Rightarrow>
          Inr (empty_patch\<lparr> p_errors :=
                 Some (Some (errors_of state
                               @ [asc ''Step '' @ stepType_text stepType @ asc '' failed: ''
                                    @ message])) \<rparr>))"


section \<open>Workflow executor: the scheduler\<close>

text \<open>\<open>checkDependencies\<close> and \<open>checkCondition\<close>. \<open>completedSteps\<close> is a \<open>Set<string>\<close>.\<close>

definition checkDependencies :: "WorkflowStep \<Rightarrow> jstring set \<Rightarrow> bool" where
  "checkDependencies step completedSteps =
     (case step_dependencies step of
        None \<Rightarrow> True
      | Some deps \<Rightarrow> list_all (\<lambda>dep. dep \<in> completedSteps) deps)"

definition checkCondition :: "WorkflowStep \<Rightarrow> WorkflowState \<Rightarrow> bool" where
  "checkCondition step state =
     (case step_condition step of None \<Rightarrow> True | Some condition \<Rightarrow> condition state)"

text \<open>
  One call of \<open>executeStep\<close> by the scheduler, as an observer of the agents sees it: the
  round of the \<open>while\<close> loop, the step, the state passed and the result. The list of
  calls is kept beside the variables of \<open>executeWorkflow\<close>; the code does not read it.
\<close>

record Call =
  call_round :: nat
  call_step :: WorkflowStep
  call_state :: WorkflowState
  call_result :: "jstring + WorkflowPatch"

text \<open>The local variables of \<open>executeWorkflow\<close>.\<close>

record Sched =
  sc_state :: WorkflowState
  sc_completedSteps :: "jstring set"
  sc_pendingSteps :: "WorkflowStep list"
  sc_progressMade :: bool
  sc_calls :: "Call list"

text \<open>\<open>pendingSteps.splice(i, 1)\<close>.\<close>

definition splice1 :: "'a list \<Rightarrow> nat \<Rightarrow> 'a list" where
  "splice1 xs i = take i xs @ drop (Suc i) xs"

text \<open>
  The body of the \<open>for\<close> loop at index \<open>i\<close>. In both branches of the \<open>try\<close> the step
  leaves \<open>pendingSteps\<close> and progress is made; only a step whose \<open>executeStep\<close> returned
  is added to \<open>completedSteps\<close>.
\<close>

definition visit :: "Agents \<Rightarrow> nat \<Rightarrow> nat \<Rightarrow> Sched \<Rightarrow> Sched" where
  "visit agents round i s =
     (let step = sc_pendingSteps s ! i in
      if checkDependencies step (sc_completedSteps s) \<and> checkCondition step (sc_state s) then
        (let outcome = executeStep agents (step_type step) (sc_state s);
             call = \<lparr> call_round = round, call_step = step, call_state = sc_state s,
                      call_result = outcome \<rparr>
         in case outcome of
              Inr stepResult \<Rightarrow>
                s\<lparr> sc_state := merge (sc_state s) stepResult,
                   sc_completedSteps := insert (step_id step) (sc_completedSteps s),
                   sc_pendingSteps := splice1 (sc_pendingSteps s) i,
                   sc_progressMade := True,
                   sc_calls := sc_calls s @ [call] \<rparr>
            | Inl message \<Rightarrow>
                s\<lparr> sc_state := (sc_state s)\<lparr> ws_errors :=
                       Some (errors_of (sc_state s)
                               @ [asc ''Step '' @ step_id step @ asc '' failed: '' @ message]) \<rparr>,
                   sc_pendingSteps := splice1 (sc_pendingSteps s) i,
                   sc_progressMade := True,
                   sc_calls := sc_calls s @ [call] \<rparr>)
      else s)"

text \<open>\<open>for (let i = pendingSteps.length - 1; i >= 0; i--)\<close>: \<open>scan agents round k s\<close> runs
  the iterations for \<open>i = k - 1\<close> down to \<open>0\<close>.\<close>

fun scan :: "Agents \<Rightarrow> nat \<Rightarrow> nat \<Rightarrow> Sched \<Rightarrow> Sched" where
  "scan agents round 0 s = s"
| "scan agents round (Suc i) s = scan agents round i (visit agents round i s)"

definition stall_message :: jstring where
  "stall_message =
     asc ''Workflow execution stalled - possible circular dependencies or unmet conditions''"

lemma length_splice1: "i < length xs \<Longrightarrow> length (splice1 xs i) = length xs - 1"
  by (auto simp: splice1_def)

lemma visit_pending_length:
  "i < length (sc_pendingSteps s) \<Longrightarrow>
   length (sc_pendingSteps (visit agents round i s)) \<le> length (sc_pendingSteps s)
   \<and> (sc_progressMade (visit agents round i s) \<and> \<not> sc_progressMade s
        \<longrightarrow> length (sc_pendingSteps (visit agents round i s)) < length (sc_pendingSteps s))
   \<and> (sc_progressMade s \<longrightarrow> sc_progressMade (visit agents round i s))
   \<and> i \<le> length (sc_pendingSteps (visit agents round i s))"
  by (auto simp: visit_def Let_def length_splice1 split: sum.splits)

lemma scan_pending_length:
  "i \<le> length (sc_pendingSteps s) \<Longrightarrow>
   length (sc_pendingSteps (scan agents round i s)) \<le> length (sc_pendingSteps s)
   \<and> (sc_progressMade (scan agents round i s) \<and> \<not> sc_progressMade s
        \<longrightarrow> length (sc_pendingSteps (scan agents round i s)) < length (sc_pendingSteps s))
   \<and> (sc_progressMade s \<longrightarrow> sc_progressMade (scan agents round i s))"
proof (induction i arbitrary: s)
  case 0
  then show ?case by simp
next
  case (Suc i)
  then have lt: "i < length (sc_pendingSteps s)" by simp
  note v = visit_pending_length[OF lt, of agents round]
  from v have "i \<le> length (sc_pendingSteps (visit agents round i s))" by simp
  from Suc.IH[OF this] v show ?case
    by (cases "sc_progressMade (visit agents round i s)") auto
qed

text \<open>
  The \<open>while\<close> loop of \<open>executeWorkflow\<close>: a round scans the pending steps; a round
  without progress records the stall and leaves the loop. Every other round removes a
  pending step, which is why the loop ends.
\<close>

function run_rounds :: "Agents \<Rightarrow> nat \<Rightarrow> Sched \<Rightarrow> Sched" where
  "run_rounds agents round s =
     (if length (sc_pendingSteps s) > 0 then
        (let s' = scan agents round (length (sc_pendingSteps s)) (s\<lparr> sc_progressMade := False \<rparr>)
         in if \<not> sc_progressMade s' then
              s'\<lparr> sc_state := (sc_state s')\<lparr> ws_errors :=
                     Some (errors_of (sc_state s') @ [stall_message]) \<rparr> \<rparr>
            else run_rounds agents (Suc round) s')
      else s)"
  by pat_completeness auto
termination
proof (relation "measure (\<lambda>(agents, round, s). length (sc_pendingSteps s))")
  show "wf (measure (\<lambda>(agents, round, s). length (sc_pendingSteps s)))" by simp
next
  fix agents :: Agents and round :: nat and s x :: Sched
  assume "0 < length (sc_pendingSteps s)"
    and x: "x = scan agents round (length (sc_pendingSteps s)) (s\<lparr>sc_progressMade := False\<rparr>)"
    and p: "\<not> \<not> sc_progressMade x"
  from scan_pending_length[of "length (sc_pendingSteps s)" "s\<lparr>sc_progressMade := False\<rparr>" agents round]
  have "length (sc_pendingSteps x) < length (sc_pendingSteps s)"
    using x p by simp
  then show "((agents, Suc round, x), agents, round, s)
               \<in> measure (\<lambda>(agents, round, s). length (sc_pendingSteps s))"
    by simp
qed

declare run_rounds.simps [simp del]

text \<open>
  \<open>executeWorkflow\<close> after the lookup of the workflow: the initial state, the loop, and
  the final \<open>completed\<close> flag. \<open>now\<close> is \<open>Date.now()\<close>. \<open>run_workflow\<close> gives the variables
  at the end of the loop, \<open>executeWorkflow_steps\<close> the state returned.
\<close>

definition initial_state :: "nat \<Rightarrow> WorkflowState \<Rightarrow> WorkflowState" where
  "initial_state now initialState =
     initialState\<lparr> ws_errors := Some [],
                   ws_sessionId :=
                     Some (or_default (ws_sessionId initialState) (asc ''session_'' @ show_nat now)),
                   ws_completed := Some False \<rparr>"

definition run_workflow :: "Agents \<Rightarrow> nat \<Rightarrow> WorkflowStep list \<Rightarrow> WorkflowState \<Rightarrow> Sched" where
  "run_workflow agents now steps initialState =
     run_rounds agents 0
       \<lparr> sc_state = initial_state now initialState, sc_completedSteps = {},
         sc_pendingSteps = steps, sc_progressMade = False, sc_calls = [] \<rparr>"

definition executeWorkflow_steps ::
  "Agents \<Rightarrow> nat \<Rightarrow> WorkflowStep list \<Rightarrow> WorkflowState \<Rightarrow> WorkflowState" where
  "executeWorkflow_steps agents now steps initialState =
     (let final = run_workflow agents now steps initialState
      in (sc_state final)\<lparr> ws_completed :=
            Some (length (sc_pendingSteps final) = 0 \<and> length (errors_of (sc_state final)) = 0) \<rparr>)"




section \<open>Scheduler: invariants of a round and of the loop\<close>

definition ready :: "WorkflowStep \<Rightarrow> Sched \<Rightarrow> bool" where
  "ready step s \<longleftrightarrow>
     checkDependencies step (sc_completedSteps s) \<and> checkCondition step (sc_state s)"

definition stalled :: "Sched \<Rightarrow> Sched" where
  "stalled s =
     s\<lparr> sc_state := (sc_state s)\<lparr> ws_errors := Some (errors_of (sc_state s) @ [stall_message]) \<rparr> \<rparr>"

lemma visit_not_ready: "\<not> ready (sc_pendingSteps s ! i) s \<Longrightarrow> visit agents round i s = s"
  by (auto simp: visit_def ready_def Let_def)

lemma visit_ready_progress:
  "ready (sc_pendingSteps s ! i) s \<Longrightarrow> sc_progressMade (visit agents round i s)"
  by (auto simp: visit_def ready_def Let_def split: sum.splits)

lemma scan_invariant:
  assumes step: "\<And>i s. i < length (sc_pendingSteps s) \<Longrightarrow> P s \<Longrightarrow> P (visit agents round i s)"
    and "i \<le> length (sc_pendingSteps s)" and "P s"
  shows "P (scan agents round i s)"
  using assms(2,3)
proof (induction i arbitrary: s)
  case 0
  then show ?case by simp
next
  case (Suc i)
  then have lt: "i < length (sc_pendingSteps s)" by simp
  have "i \<le> length (sc_pendingSteps (visit agents round i s))"
    using visit_pending_length[OF lt] by simp
  moreover have "P (visit agents round i s)" using step[OF lt Suc.prems(2)] .
  ultimately show ?case using Suc.IH by simp
qed

text \<open>A round without progress changed nothing, and found no pending step ready.\<close>

lemma scan_no_progress:
  assumes "i \<le> length (sc_pendingSteps s)" and "\<not> sc_progressMade (scan agents round i s)"
  shows "scan agents round i s = s \<and> (\<forall>j<i. \<not> ready (sc_pendingSteps s ! j) s)"
  using assms
proof (induction i arbitrary: s)
  case 0
  then show ?case by simp
next
  case (Suc i)
  then have lt: "i < length (sc_pendingSteps s)" by simp
  have le: "i \<le> length (sc_pendingSteps (visit agents round i s))"
    using visit_pending_length[OF lt] by simp
  have nr: "\<not> ready (sc_pendingSteps s ! i) s"
  proof
    assume "ready (sc_pendingSteps s ! i) s"
    then have "sc_progressMade (visit agents round i s)" by (rule visit_ready_progress)
    then have "sc_progressMade (scan agents round i (visit agents round i s))"
      using scan_pending_length[OF le] by simp
    with Suc.prems(2) show False by simp
  qed
  then have v: "visit agents round i s = s" by (rule visit_not_ready)
  with Suc.IH[of s] Suc.prems lt have "scan agents round i s = s \<and> (\<forall>j<i. \<not> ready (sc_pendingSteps s ! j) s)"
    by simp
  with nr v show ?case by (auto simp: less_Suc_eq)
qed

lemma run_rounds_invariant:
  assumes step: "\<And>round i s. i < length (sc_pendingSteps s) \<Longrightarrow> P s \<Longrightarrow> P (visit agents round i s)"
    and reset: "\<And>s. P s \<Longrightarrow> P (s\<lparr> sc_progressMade := False \<rparr>)"
    and stall: "\<And>s. P s \<Longrightarrow> sc_pendingSteps s \<noteq> [] \<Longrightarrow> \<not> sc_progressMade s
                  \<Longrightarrow> (\<forall>d \<in> set (sc_pendingSteps s). \<not> ready d s) \<Longrightarrow> Q (stalled s)"
    and finished: "\<And>s. P s \<Longrightarrow> sc_pendingSteps s = [] \<Longrightarrow> Q s"
    and "P s"
  shows "Q (run_rounds agents round s)"
  using assms
proof (induction agents round s rule: run_rounds.induct)
  case (1 agents round s)
  note step = "1.prems"(1) and reset = "1.prems"(2) and stall = "1.prems"(3)
    and finished = "1.prems"(4) and P = "1.prems"(5)
  show ?case
  proof (cases "sc_pendingSteps s = []")
    case True
    then show ?thesis using finished[OF P] by (subst run_rounds.simps) simp
  next
    case False
    let ?s0 = "s\<lparr> sc_progressMade := False \<rparr>"
    let ?s' = "scan agents round (length (sc_pendingSteps s)) ?s0"
    have P': "P ?s'"
    proof (rule scan_invariant[where P = P])
      show "\<And>i s. i < length (sc_pendingSteps s) \<Longrightarrow> P s \<Longrightarrow> P (visit agents round i s)"
        by (rule step)
      show "length (sc_pendingSteps s) \<le> length (sc_pendingSteps ?s0)" by simp
      show "P ?s0" by (rule reset[OF P])
    qed
    show ?thesis
    proof (cases "sc_progressMade ?s'")
      case True
      then have "run_rounds agents round s = run_rounds agents (Suc round) ?s'"
        using False by (subst run_rounds.simps) (simp add: Let_def)
      moreover have "Q (run_rounds agents (Suc round) ?s')"
        using False True by (intro "1.IH"[OF _ refl _ step reset stall finished P']) simp_all
      ultimately show ?thesis by simp
    next
      case np: False
      from scan_no_progress[of "length (sc_pendingSteps s)" ?s0 agents round] np
      have same: "?s' = ?s0" and nr: "\<forall>j<length (sc_pendingSteps s). \<not> ready (sc_pendingSteps ?s0 ! j) ?s0"
        by simp_all
      have "\<forall>d \<in> set (sc_pendingSteps ?s0). \<not> ready d ?s0"
        using nr by (auto simp: in_set_conv_nth)
      then have "Q (stalled ?s0)"
        using stall[of ?s0] reset[OF P] False by simp
      moreover have "run_rounds agents round s = stalled ?s0"
        using False np same by (subst run_rounds.simps) (simp add: Let_def stalled_def)
      ultimately show ?thesis by simp
    qed
  qed
qed


section \<open>Scheduler: dependency cycles\<close>

definition depends_on :: "WorkflowStep \<Rightarrow> WorkflowStep \<Rightarrow> bool" where
  "depends_on a b \<longleftrightarrow>
     (case step_dependencies a of None \<Rightarrow> False | Some deps \<Rightarrow> step_id b \<in> set deps)"

text \<open>\<open>cyc\<close> is a cycle of the step graph: steps of the workflow, each of which names the
  next one among its dependencies, the last one naming the first.\<close>

definition dependency_cycle :: "WorkflowStep list \<Rightarrow> WorkflowStep list \<Rightarrow> bool" where
  "dependency_cycle steps cyc \<longleftrightarrow>
     cyc \<noteq> [] \<and> set cyc \<subseteq> set steps
     \<and> (\<forall>i<length cyc. depends_on (cyc ! i) (cyc ! (Suc i mod length cyc)))"

lemma set_splice1_subset: "set (splice1 xs i) \<subseteq> set xs"
  by (auto simp: splice1_def dest: in_set_takeD in_set_dropD)

lemma set_splice1_keeps:
  assumes "x \<in> set xs" and "x \<noteq> xs ! i"
  shows "x \<in> set (splice1 xs i)"
proof -
  from assms(1) obtain k where k: "k < length xs" "xs ! k = x" by (auto simp: in_set_conv_nth)
  with assms(2) have "k \<noteq> i" by auto
  then consider "k < i" | "i < k" by linarith
  then show ?thesis
  proof cases
    case 1
    then have "x = take i xs ! k" using k by simp
    moreover have "k < length (take i xs)" using 1 k by simp
    ultimately have "x \<in> set (take i xs)" by (metis nth_mem)
    then show ?thesis by (simp add: splice1_def)
  next
    case 2
    then have "x = drop (Suc i) xs ! (k - Suc i)" using k by simp
    moreover have "k - Suc i < length (drop (Suc i) xs)" using 2 k by simp
    ultimately have "x \<in> set (drop (Suc i) xs)" by (metis nth_mem)
    then show ?thesis by (simp add: splice1_def)
  qed
qed

lemma visit_fields:
  "sc_completedSteps (visit agents round i s) \<subseteq> insert (step_id (sc_pendingSteps s ! i)) (sc_completedSteps s)"
  "sc_pendingSteps (visit agents round i s) = sc_pendingSteps s
     \<or> sc_pendingSteps (visit agents round i s) = splice1 (sc_pendingSteps s) i"
  by (auto simp: visit_def Let_def ready_def split: sum.splits)

lemma disjoint_subset: "A \<subseteq> B \<Longrightarrow> B \<inter> C = {} \<Longrightarrow> A \<inter> C = {}"
  by auto

lemma visit_changed_ready:
  "visit agents round i s \<noteq> s \<Longrightarrow> ready (sc_pendingSteps s ! i) s"
  using visit_not_ready by blast

lemma cycle_step_never_ready:
  assumes dist: "distinct (map step_id steps)"
    and cyc: "dependency_cycle steps cyc"
    and disj: "completed \<inter> step_id ` set cyc = {}"
    and st: "step \<in> set steps" and idC: "step_id step \<in> step_id ` set cyc"
  shows "\<not> checkDependencies step completed"
proof -
  from idC obtain c where c: "c \<in> set cyc" "step_id c = step_id step" by auto
  with cyc have "c \<in> set steps" by (auto simp: dependency_cycle_def)
  with dist st c have "c = step"
    by (meson distinct_map inj_onD)
  with c obtain k where k: "k < length cyc" "cyc ! k = step" by (auto simp: in_set_conv_nth)
  let ?n = "cyc ! (Suc k mod length cyc)"
  from cyc k have dep: "depends_on step ?n" by (auto simp: dependency_cycle_def)
  have "0 < length cyc" using k by (cases cyc) auto
  then have "?n \<in> set cyc" by (intro nth_mem mod_less_divisor)
  then have "step_id ?n \<notin> completed" using disj by auto
  with dep show ?thesis
    by (auto simp: depends_on_def checkDependencies_def list_all_iff split: option.splits)
qed

lemma run_rounds_cycle:
  assumes dist: "distinct (map step_id steps)"
    and cyc: "dependency_cycle steps cyc"
    and init: "sc_completedSteps s \<inter> step_id ` set cyc = {}" "set cyc \<subseteq> set (sc_pendingSteps s)"
      "set (sc_pendingSteps s) \<subseteq> set steps"
  shows "set cyc \<subseteq> set (sc_pendingSteps (run_rounds agents round s))
         \<and> errors_of (sc_state (run_rounds agents round s)) \<noteq> []
         \<and> last (errors_of (sc_state (run_rounds agents round s))) = stall_message"
proof -
  let ?C = "step_id ` set cyc"
  let ?P = "\<lambda>s::Sched. sc_completedSteps s \<inter> ?C = {} \<and> set cyc \<subseteq> set (sc_pendingSteps s)
                 \<and> set (sc_pendingSteps s) \<subseteq> set steps"
  let ?Q = "\<lambda>s::Sched. set cyc \<subseteq> set (sc_pendingSteps s) \<and> errors_of (sc_state s) \<noteq> []
                 \<and> last (errors_of (sc_state s)) = stall_message"
  have ne: "cyc \<noteq> []" using cyc by (simp add: dependency_cycle_def)
  show ?thesis
  proof (rule run_rounds_invariant[where P = ?P and Q = ?Q])
    fix round i and s :: Sched
    assume i: "i < length (sc_pendingSteps s)" and P: "?P s"
    let ?step = "sc_pendingSteps s ! i"
    show "?P (visit agents round i s)"
    proof (cases "visit agents round i s = s")
      case True
      with P show ?thesis by simp
    next
      case False
      then have rdy: "ready ?step s" by (rule visit_changed_ready)
      have mem: "?step \<in> set steps" using i P by auto
      have notC: "step_id ?step \<notin> ?C"
      proof
        assume "step_id ?step \<in> ?C"
        from cycle_step_never_ready[OF dist cyc _ mem this, of "sc_completedSteps s"] P rdy
        show False by (simp add: ready_def)
      qed
      then have notcyc: "\<forall>c \<in> set cyc. c \<noteq> ?step" by auto
      have "insert (step_id ?step) (sc_completedSteps s) \<inter> ?C = {}"
        using P notC by simp
      then have 1: "sc_completedSteps (visit agents round i s) \<inter> ?C = {}"
        by (rule disjoint_subset[OF visit_fields(1)])
      have "set cyc \<subseteq> set (splice1 (sc_pendingSteps s) i)"
      proof
        fix c assume c: "c \<in> set cyc"
        then have "c \<in> set (sc_pendingSteps s)" and "c \<noteq> ?step" using P notcyc by auto
        then show "c \<in> set (splice1 (sc_pendingSteps s) i)" by (rule set_splice1_keeps)
      qed
      then have 2: "set cyc \<subseteq> set (sc_pendingSteps (visit agents round i s))"
        using visit_fields(2)[of agents round i s] P by auto
      have 3: "set (sc_pendingSteps (visit agents round i s)) \<subseteq> set steps"
        using visit_fields(2)[of agents round i s] P set_splice1_subset[of "sc_pendingSteps s" i]
        by auto
      from 1 2 3 show ?thesis by simp
    qed
  next
    fix s :: Sched assume "?P s" then show "?P (s\<lparr>sc_progressMade := False\<rparr>)" by simp
  next
    fix s :: Sched assume "?P s"
    then show "?Q (stalled s)" by (simp add: stalled_def errors_of_def)
  next
    fix s :: Sched assume "?P s" and "sc_pendingSteps s = []"
    with ne show "?Q s" by auto
  next
    show "?P s" using init by simp
  qed
qed

text \<open>
  Claim C3. For every step graph (steps with distinct ids) whose dependencies contain a
  cycle, \<open>executeWorkflow\<close> returns (the loop is a total function: each round that does
  not stall removes a pending step), the last entry of \<open>errors\<close> is the stall message
  naming possible circular dependencies or unmet conditions, \<open>completed\<close> is false, and
  the steps of the cycle are still pending.
\<close>

theorem executeWorkflow_cycle_stalls:
  assumes "distinct (map step_id steps)" and "dependency_cycle steps cyc"
  shows "ws_completed (executeWorkflow_steps agents now steps initialState) = Some False
         \<and> errors_of (executeWorkflow_steps agents now steps initialState) \<noteq> []
         \<and> last (errors_of (executeWorkflow_steps agents now steps initialState)) = stall_message
         \<and> set cyc \<subseteq> set (sc_pendingSteps (run_workflow agents now steps initialState))"
proof -
  have sub: "set cyc \<subseteq> set steps" and ne: "cyc \<noteq> []"
    using assms(2) by (simp_all add: dependency_cycle_def)
  let ?fin = "run_workflow agents now steps initialState"
  have r: "set cyc \<subseteq> set (sc_pendingSteps ?fin) \<and> errors_of (sc_state ?fin) \<noteq> []
           \<and> last (errors_of (sc_state ?fin)) = stall_message"
    unfolding run_workflow_def
    by (rule run_rounds_cycle[OF assms]) (use sub in simp_all)
  then have "sc_pendingSteps ?fin \<noteq> []" using ne by auto
  with r show ?thesis
    by (simp add: executeWorkflow_steps_def Let_def errors_of_def)
qed


definition sample_document :: DocumentContent where
  "sample_document = \<lparr> dc_title = asc ''Guide'', dc_content = asc ''Some text'', dc_url = asc ''https://example.com/doc'' \<rparr>"

definition ok :: "'a \<Rightarrow> jstring + 'a AgentResult" where
  "ok v = Inr \<lparr> ar_success = True, ar_data = Some v, ar_error = None, ar_attempts = Some 1 \<rparr>"

definition stub_agents :: Agents where
  "stub_agents =
     \<lparr> documentParser = (\<lambda>url context. ok sample_document),
       keyPointExtractor = (\<lambda>documentContent userLevel context. ok [kpA]),
       learningPathAgent = (\<lambda>keyPoints userLevel context. ok []),
       quizAgent = (\<lambda>keyPoints documentContent questionCount userLevel context. ok []),
       qaAgent = (\<lambda>question documentContent history context. ok (asc ''42'')) \<rparr>"

definition empty_state :: WorkflowState where
  "empty_state =
     \<lparr> ws_url = None, ws_documentContent = None, ws_keyPoints = None, ws_question = None,
       ws_userLevel = None, ws_questionCount = None, ws_conversationHistory = None,
       ws_parsedDocument = None, ws_extractedKeyPoints = None, ws_generatedLearningPath = None,
       ws_generatedQuiz = None, ws_answer = None, ws_errors = None, ws_currentStep = None,
       ws_sessionId = None, ws_completed = None \<rparr>"

lemma executeStep_returns: "\<exists>stepResult. executeStep agents stepType state = Inr stepResult"
  by (simp add: executeStep_def split: sum.splits)

definition call_key :: "Call \<Rightarrow> nat \<times> jstring" where
  "call_key c = (call_round c, step_id (call_step c))"

lemma visit_projections:
  "sc_pendingSteps (visit agents round i s) =
     (if ready (sc_pendingSteps s ! i) s then splice1 (sc_pendingSteps s) i else sc_pendingSteps s)"
  "sc_completedSteps (visit agents round i s) =
     (if ready (sc_pendingSteps s ! i) s
      then insert (step_id (sc_pendingSteps s ! i)) (sc_completedSteps s) else sc_completedSteps s)"
  "sc_progressMade (visit agents round i s) = (ready (sc_pendingSteps s ! i) s \<or> sc_progressMade s)"
  "sc_state (visit agents round i s) =
     (if ready (sc_pendingSteps s ! i) s
      then merge (sc_state s) (projr (executeStep agents (step_type (sc_pendingSteps s ! i)) (sc_state s)))
      else sc_state s)"
  "map call_key (sc_calls (visit agents round i s)) =
     map call_key (sc_calls s)
       @ (if ready (sc_pendingSteps s ! i) s then [(round, step_id (sc_pendingSteps s ! i))] else [])"
  using executeStep_returns[of agents "step_type (sc_pendingSteps s ! i)" "sc_state s"]
  by (auto simp: visit_def ready_def Let_def call_key_def)

lemma run_rounds_done: "sc_pendingSteps s = [] \<Longrightarrow> run_rounds agents round s = s"
  by (subst run_rounds.simps) simp

lemma run_rounds_stall:
  "sc_pendingSteps s \<noteq> [] \<Longrightarrow>
   \<not> sc_progressMade (scan agents round (length (sc_pendingSteps s)) (s\<lparr> sc_progressMade := False \<rparr>)) \<Longrightarrow>
   run_rounds agents round s =
     stalled (scan agents round (length (sc_pendingSteps s)) (s\<lparr> sc_progressMade := False \<rparr>))"
  by (subst run_rounds.simps) (simp add: Let_def stalled_def)

lemma run_rounds_next:
  "sc_pendingSteps s \<noteq> [] \<Longrightarrow>
   sc_progressMade (scan agents round (length (sc_pendingSteps s)) (s\<lparr> sc_progressMade := False \<rparr>)) \<Longrightarrow>
   run_rounds agents round s =
     run_rounds agents (Suc round)
       (scan agents round (length (sc_pendingSteps s)) (s\<lparr> sc_progressMade := False \<rparr>))"
  by (subst run_rounds.simps) (simp add: Let_def)


section \<open>Scheduler: the calls of a run\<close>

text \<open>What the scheduler does to its state with the outcome of a call.\<close>

definition apply_call :: "WorkflowState \<Rightarrow> Call \<Rightarrow> WorkflowState" where
  "apply_call state c =
     (case call_result c of
        Inr stepResult \<Rightarrow> merge state stepResult
      | Inl message \<Rightarrow>
          state\<lparr> ws_errors :=
            Some (errors_of state
                    @ [asc ''Step '' @ step_id (call_step c) @ asc '' failed: '' @ message]) \<rparr>)"

definition replay :: "WorkflowState \<Rightarrow> Call list \<Rightarrow> WorkflowState" where
  "replay state cs = foldl apply_call state cs"

text \<open>
  \<open>observed agents state cs\<close>: the calls \<open>cs\<close> were made one after the other starting
  from \<open>state\<close>, each with the state that holds the results of all calls before it, and
  each result is what \<open>executeStep\<close> gives on that state.
\<close>

fun observed :: "Agents \<Rightarrow> WorkflowState \<Rightarrow> Call list \<Rightarrow> bool" where
  "observed agents state [] = True"
| "observed agents state (c # cs) =
     (call_state c = state
      \<and> call_result c = executeStep agents (step_type (call_step c)) state
      \<and> observed agents (apply_call state c) cs)"

lemma replay_append: "replay state (cs @ ds) = replay (replay state cs) ds"
  by (simp add: replay_def)

lemma observed_append:
  "observed agents state (cs @ ds) \<longleftrightarrow>
     observed agents state cs \<and> observed agents (replay state cs) ds"
  by (induction cs arbitrary: state) (auto simp: replay_def)

text \<open>The calls a visit adds, and what it does to the state.\<close>

definition visit_calls :: "Agents \<Rightarrow> nat \<Rightarrow> nat \<Rightarrow> Sched \<Rightarrow> Call list" where
  "visit_calls agents round i s =
     (if ready (sc_pendingSteps s ! i) s
      then [\<lparr> call_round = round, call_step = sc_pendingSteps s ! i, call_state = sc_state s,
               call_result = executeStep agents (step_type (sc_pendingSteps s ! i)) (sc_state s) \<rparr>]
      else [])"

lemma visit_calls:
  "sc_calls (visit agents round i s) = sc_calls s @ visit_calls agents round i s"
  "sc_state (visit agents round i s) = replay (sc_state s) (visit_calls agents round i s)"
  "observed agents (sc_state s) (visit_calls agents round i s)"
  using executeStep_returns[of agents "step_type (sc_pendingSteps s ! i)" "sc_state s"]
  by (auto simp: visit_def visit_calls_def ready_def Let_def replay_def apply_call_def)

lemma take_splice1: "take i (splice1 xs i) = take i xs"
  by (simp add: splice1_def min_def)

lemma visit_take: "take i (sc_pendingSteps (visit agents round i s)) = take i (sc_pendingSteps s)"
  by (simp add: visit_projections take_splice1)

text \<open>One round: the calls it adds come in the reverse of the order of \<open>pendingSteps\<close>,
  each call sees the results of the calls before it, and all of them carry the round.\<close>

lemma scan_calls:
  assumes "i \<le> length (sc_pendingSteps s)"
  shows "\<exists>new. sc_calls (scan agents round i s) = sc_calls s @ new
           \<and> subseq (map call_step new) (rev (take i (sc_pendingSteps s)))
           \<and> observed agents (sc_state s) new
           \<and> sc_state (scan agents round i s) = replay (sc_state s) new
           \<and> map call_round new = replicate (length new) round"
  using assms
proof (induction i arbitrary: s)
  case 0
  show ?case by (simp add: replay_def)
next
  case (Suc i)
  then have lt: "i < length (sc_pendingSteps s)" by simp
  let ?v = "visit agents round i s"
  let ?vc = "visit_calls agents round i s"
  have le: "i \<le> length (sc_pendingSteps ?v)"
    using visit_pending_length[OF lt] by simp
  from Suc.IH[OF le] obtain new where new:
    "sc_calls (scan agents round i ?v) = sc_calls ?v @ new"
    "subseq (map call_step new) (rev (take i (sc_pendingSteps ?v)))"
    "observed agents (sc_state ?v) new"
    "sc_state (scan agents round i ?v) = replay (sc_state ?v) new"
    "map call_round new = replicate (length new) round"
    by blast
  have tk: "take (Suc i) (sc_pendingSteps s) = take i (sc_pendingSteps s) @ [sc_pendingSteps s ! i]"
    using lt by (simp add: take_Suc_conv_app_nth)
  have sub: "subseq (map call_step (?vc @ new)) (rev (take (Suc i) (sc_pendingSteps s)))"
  proof (cases "ready (sc_pendingSteps s ! i) s")
    case True
    then show ?thesis using new(2) by (simp add: visit_calls_def tk visit_take)
  next
    case False
    then show ?thesis using new(2)
      by (simp add: visit_calls_def tk visit_take list_emb_Cons)
  qed
  have rounds: "map call_round (?vc @ new) = replicate (length (?vc @ new)) round"
    using new(5) by (simp add: visit_calls_def)
  show ?case
    apply (rule exI[of _ "?vc @ new"])
    using new(1,3,4) sub rounds
    by (simp add: visit_calls observed_append replay_append del: replicate_add)
qed

text \<open>
  The calls of one round as its description has them, without index or \<open>splice\<close>: the
  steps are taken one after the other (the theorem below passes the pending steps
  reversed); a step is called exactly if it is runnable at that moment, which is when
  its dependencies are among the completed steps and its condition holds in the state;
  the call receives the state, its result is merged before the next step is looked at,
  and the step joins the completed steps. A step that is not runnable is passed over
  and changes nothing.
\<close>

fun round_calls ::
  "Agents \<Rightarrow> nat \<Rightarrow> WorkflowStep list \<Rightarrow> WorkflowState \<Rightarrow> jstring set \<Rightarrow> Call list" where
  "round_calls agents round [] state completedSteps = []"
| "round_calls agents round (step # steps) state completedSteps =
     (if checkDependencies step completedSteps \<and> checkCondition step state then
        (let c = \<lparr> call_round = round, call_step = step, call_state = state,
                   call_result = executeStep agents (step_type step) state \<rparr>
         in c # round_calls agents round steps (apply_call state c)
                  (case call_result c of
                     Inr stepResult \<Rightarrow> insert (step_id step) completedSteps
                   | Inl message \<Rightarrow> completedSteps))
      else round_calls agents round steps state completedSteps)"

text \<open>The \<open>for\<close> loop with its index and its \<open>splice\<close> makes these calls: removing the
  entry at \<open>i\<close> leaves the entries below \<open>i\<close>, which are the ones still to visit, where
  they are.\<close>

lemma scan_round_calls:
  assumes "i \<le> length (sc_pendingSteps s)"
  shows "sc_calls (scan agents round i s)
           = sc_calls s @ round_calls agents round (rev (take i (sc_pendingSteps s)))
                            (sc_state s) (sc_completedSteps s)"
  using assms
proof (induction i arbitrary: s)
  case 0
  show ?case by simp
next
  case (Suc i)
  then have lt: "i < length (sc_pendingSteps s)" by simp
  let ?v = "visit agents round i s"
  have le: "i \<le> length (sc_pendingSteps ?v)"
    using visit_pending_length[OF lt] by simp
  have tk: "rev (take (Suc i) (sc_pendingSteps s))
              = sc_pendingSteps s ! i # rev (take i (sc_pendingSteps s))"
    using lt by (simp add: take_Suc_conv_app_nth)
  show ?case
  proof (cases "ready (sc_pendingSteps s ! i) s")
    case False
    then show ?thesis
      using Suc.IH[OF le] by (auto simp: tk visit_not_ready ready_def)
  next
    case True
    obtain r where r: "executeStep agents (step_type (sc_pendingSteps s ! i)) (sc_state s) = Inr r"
      using executeStep_returns by blast
    from True r show ?thesis
      using Suc.IH[OF le]
      by (simp add: tk visit_take) (simp add: visit_def ready_def Let_def apply_call_def)
  qed
qed

text \<open>
  Claim C9, amended. Within each scheduler round (a scan of the not-yet-run steps,
  started from any values \<open>s\<close> of the scheduler's variables), the steps executed are
  exactly the runnable ones found in the scan, and they are executed in the reverse of
  the declaration order: the calls of the round are those of \<open>round_calls\<close> on the
  reversed list of pending steps, where a step is called if and only if its
  dependencies are completed and its condition holds at the moment it is reached, so
  the steps called are a subsequence of the reversed list of pending steps. Each
  step's result is merged into the shared state at once: every call of the round
  receives the state that holds the results of all calls before it, and the state
  after the round holds all of them.
\<close>

theorem scan_reverse_order_immediate_merge:
  "\<exists>new. new = round_calls agents round (rev (sc_pendingSteps s)) (sc_state s) (sc_completedSteps s)
         \<and> sc_calls (scan agents round (length (sc_pendingSteps s)) (s\<lparr> sc_progressMade := False \<rparr>))
            = sc_calls s @ new
         \<and> subseq (map call_step new) (rev (sc_pendingSteps s))
         \<and> observed agents (sc_state s) new
         \<and> sc_state (scan agents round (length (sc_pendingSteps s)) (s\<lparr> sc_progressMade := False \<rparr>))
             = replay (sc_state s) new
         \<and> map call_round new = replicate (length new) round"
proof -
  let ?s = "s\<lparr> sc_progressMade := False \<rparr>"
  let ?n = "length (sc_pendingSteps s)"
  from scan_calls[of ?n ?s agents round] obtain new where new:
    "sc_calls (scan agents round ?n ?s) = sc_calls s @ new"
    "subseq (map call_step new) (rev (sc_pendingSteps s))"
    "observed agents (sc_state s) new"
    "sc_state (scan agents round ?n ?s) = replay (sc_state s) new"
    "map call_round new = replicate (length new) round"
    by auto
  from scan_round_calls[of ?n ?s agents round] new(1)
  have "new = round_calls agents round (rev (sc_pendingSteps s)) (sc_state s) (sc_completedSteps s)"
    by simp
  with new show ?thesis by blast
qed


text \<open>The entry a call adds to \<open>errors\<close>: the text \<open>executeStep\<close> builds when the step's
  own method throws, which it does when a required input is missing, when the agent
  rejects, and when the agent reports \<open>success = false\<close>.\<close>

definition step_failure :: "Agents \<Rightarrow> Call \<Rightarrow> jstring option" where
  "step_failure agents c =
     (case dispatch agents (step_type (call_step c)) (call_state c) (step_context (call_state c)) of
        Inl message \<Rightarrow>
          Some (asc ''Step '' @ stepType_text (step_type (call_step c)) @ asc '' failed: '' @ message)
      | Inr stepResult \<Rightarrow> None)"

lemma dispatch_success_no_errors:
  "dispatch agents stepType state context = Inr stepResult \<Longrightarrow> p_errors stepResult = None"
  by (auto simp: dispatch_def executeParseDocument_def executeExtractKeypoints_def
      executeGenerateLearningPath_def executeGenerateQuiz_def executeAnswerQuestion_def
      empty_patch_def split: WorkflowStepType.splits sum.splits option.splits if_splits)

lemma errors_of_merge:
  "errors_of (merge state stepResult) =
     (case p_errors stepResult of
        None \<Rightarrow> errors_of state
      | Some v \<Rightarrow> (case v of None \<Rightarrow> [] | Some es \<Rightarrow> es))"
  by (simp add: errors_of_def merge_def merge_field_def split: option.splits)

lemma apply_call_errors:
  assumes "call_state c = state"
    and "call_result c = executeStep agents (step_type (call_step c)) state"
  shows "errors_of (apply_call state c) =
           errors_of state @ (case step_failure agents c of None \<Rightarrow> [] | Some m \<Rightarrow> [m])"
proof (cases "dispatch agents (step_type (call_step c)) state (step_context state)")
  case (Inl message)
  then show ?thesis using assms
    by (simp add: apply_call_def executeStep_def step_failure_def errors_of_merge empty_patch_def)
next
  case (Inr stepResult)
  then show ?thesis using assms dispatch_success_no_errors[OF Inr]
    by (simp add: apply_call_def executeStep_def step_failure_def errors_of_merge)
qed

lemma replay_errors:
  "observed agents state cs \<Longrightarrow>
   errors_of (replay state cs) = errors_of state @ List.map_filter (step_failure agents) cs"
proof (induction cs arbitrary: state)
  case Nil
  then show ?case by (simp add: replay_def map_filter_simps)
next
  case (Cons c cs)
  then have "errors_of (replay (apply_call state c) cs)
               = errors_of (apply_call state c) @ List.map_filter (step_failure agents) cs"
    by simp
  moreover have "errors_of (apply_call state c)
               = errors_of state @ (case step_failure agents c of None \<Rightarrow> [] | Some m \<Rightarrow> [m])"
    using Cons.prems by (intro apply_call_errors) simp_all
  ultimately show ?case
    by (simp add: replay_def map_filter_simps split: option.splits)
qed

text \<open>What holds of the scheduler's variables throughout a run that started in state
  \<open>state0\<close> with all \<open>steps\<close> pending and no call made.\<close>

definition calls_ok :: "Agents \<Rightarrow> WorkflowState \<Rightarrow> WorkflowStep list \<Rightarrow> Sched \<Rightarrow> bool" where
  "calls_ok agents state0 steps s \<longleftrightarrow>
     sc_state s = replay state0 (sc_calls s)
     \<and> observed agents state0 (sc_calls s)
     \<and> sc_completedSteps s = step_id ` call_step ` set (sc_calls s)
     \<and> set steps \<subseteq> set (sc_pendingSteps s) \<union> call_step ` set (sc_calls s)
     \<and> (\<forall>k<length (sc_calls s).
           checkDependencies (call_step (sc_calls s ! k))
             (step_id ` call_step ` set (take k (sc_calls s))))"

lemma calls_ok_visit:
  assumes i: "i < length (sc_pendingSteps s)" and ok: "calls_ok agents state0 steps s"
  shows "calls_ok agents state0 steps (visit agents round i s)"
proof (cases "ready (sc_pendingSteps s ! i) s")
  case False
  then show ?thesis using ok by (simp add: visit_not_ready)
next
  case True
  let ?step = "sc_pendingSteps s ! i"
  let ?c = "\<lparr> call_round = round, call_step = ?step, call_state = sc_state s,
               call_result = executeStep agents (step_type ?step) (sc_state s) \<rparr>"
  let ?v = "visit agents round i s"
  have vc: "visit_calls agents round i s = [?c]" using True by (simp add: visit_calls_def)
  have calls: "sc_calls ?v = sc_calls s @ [?c]" by (simp add: visit_calls(1) vc)
  have 1: "sc_state ?v = replay state0 (sc_calls ?v)"
    using ok by (simp add: calls visit_calls(2) vc replay_append calls_ok_def)
  have 2: "observed agents state0 (sc_calls ?v)"
    using ok visit_calls(3)[of agents s round i]
    by (simp add: calls observed_append vc calls_ok_def)
  have 3: "sc_completedSteps ?v = step_id ` call_step ` set (sc_calls ?v)"
    using ok True by (simp add: calls visit_projections(2) calls_ok_def)
  have 4: "set steps \<subseteq> set (sc_pendingSteps ?v) \<union> call_step ` set (sc_calls ?v)"
  proof
    fix d assume "d \<in> set steps"
    with ok have d: "d \<in> set (sc_pendingSteps s) \<or> d \<in> call_step ` set (sc_calls s)"
      by (auto simp: calls_ok_def)
    show "d \<in> set (sc_pendingSteps ?v) \<union> call_step ` set (sc_calls ?v)"
    proof (cases "d = ?step")
      case True
      then show ?thesis by (simp add: calls)
    next
      case False
      with d have "d \<in> set (splice1 (sc_pendingSteps s) i) \<or> d \<in> call_step ` set (sc_calls s)"
        by (auto intro: set_splice1_keeps)
      then show ?thesis using True by (auto simp: calls visit_projections(1))
    qed
  qed
  have 5: "checkDependencies (call_step (sc_calls ?v ! k))
             (step_id ` call_step ` set (take k (sc_calls ?v)))" if k: "k < length (sc_calls ?v)" for k
  proof (cases "k < length (sc_calls s)")
    case True
    then show ?thesis using ok by (simp add: calls nth_append calls_ok_def)
  next
    case False
    with k have "k = length (sc_calls s)" by (simp add: calls)
    then show ?thesis using ok \<open>ready ?step s\<close>
      by (simp add: calls nth_append ready_def calls_ok_def)
  qed
  from 1 2 3 4 5 show ?thesis unfolding calls_ok_def by blast
qed

definition start :: "nat \<Rightarrow> WorkflowStep list \<Rightarrow> WorkflowState \<Rightarrow> Sched" where
  "start now steps initialState =
     \<lparr> sc_state = initial_state now initialState, sc_completedSteps = {},
       sc_pendingSteps = steps, sc_progressMade = False, sc_calls = [] \<rparr>"

text \<open>The end of a run: either nothing is pending, or nothing pending is ready and the
  stall is recorded.\<close>

lemma run_workflow_end:
  "\<exists>s. calls_ok agents (initial_state now initialState) steps s
     \<and> (run_workflow agents now steps initialState = s \<and> sc_pendingSteps s = []
        \<or> run_workflow agents now steps initialState = stalled s \<and> sc_pendingSteps s \<noteq> []
          \<and> (\<forall>d \<in> set (sc_pendingSteps s). \<not> ready d s))"
proof -
  let ?ok = "calls_ok agents (initial_state now initialState) steps"
  let ?Q = "\<lambda>fin::Sched. \<exists>s. ?ok s
     \<and> (fin = s \<and> sc_pendingSteps s = []
        \<or> fin = stalled s \<and> sc_pendingSteps s \<noteq> [] \<and> (\<forall>d \<in> set (sc_pendingSteps s). \<not> ready d s))"
  have "?Q (run_rounds agents 0 (start now steps initialState))"
  proof (rule run_rounds_invariant[where P = ?ok and Q = ?Q])
    show "\<And>round i s. i < length (sc_pendingSteps s) \<Longrightarrow> ?ok s \<Longrightarrow> ?ok (visit agents round i s)"
      by (rule calls_ok_visit)
    show "\<And>s. ?ok s \<Longrightarrow> ?ok (s\<lparr>sc_progressMade := False\<rparr>)" by (simp add: calls_ok_def)
    show "\<And>s. ?ok s \<Longrightarrow> sc_pendingSteps s \<noteq> [] \<Longrightarrow> \<not> sc_progressMade s
            \<Longrightarrow> \<forall>d\<in>set (sc_pendingSteps s). \<not> ready d s \<Longrightarrow> ?Q (stalled s)" by blast
    show "\<And>s. ?ok s \<Longrightarrow> sc_pendingSteps s = [] \<Longrightarrow> ?Q s" by blast
    show "?ok (start now steps initialState)"
      by (simp add: calls_ok_def start_def replay_def)
  qed
  then show ?thesis by (simp add: run_workflow_def start_def)
qed



lemma set_map_filter: "set (List.map_filter f xs) = {y. \<exists>x \<in> set xs. f x = Some y}"
  by (induction xs) (auto simp: map_filter_simps split: option.splits)

lemma errors_of_initial_state: "errors_of (initial_state now initialState) = []"
  by (simp add: errors_of_def initial_state_def)

lemma errors_of_stalled: "errors_of (sc_state (stalled s)) = errors_of (sc_state s) @ [stall_message]"
  by (simp add: stalled_def errors_of_def)

lemma stalled_fields:
  "sc_calls (stalled s) = sc_calls s" "sc_completedSteps (stalled s) = sc_completedSteps s"
  "sc_pendingSteps (stalled s) = sc_pendingSteps s"
  by (simp_all add: stalled_def)


text \<open>The \<open>errors\<close> of the state at the end of the loop: the failure texts of the calls,
  in the order of the calls, and the stall message if steps are left.\<close>

lemma run_workflow_errors:
  "errors_of (sc_state (run_workflow agents now steps initialState))
     = List.map_filter (step_failure agents) (sc_calls (run_workflow agents now steps initialState))
       @ (if sc_pendingSteps (run_workflow agents now steps initialState) = [] then []
          else [stall_message])"
proof -
  from run_workflow_end[of agents now initialState steps] obtain s where
    ok: "calls_ok agents (initial_state now initialState) steps s" and
    fin: "run_workflow agents now steps initialState = s \<and> sc_pendingSteps s = []
        \<or> run_workflow agents now steps initialState = stalled s \<and> sc_pendingSteps s \<noteq> []
          \<and> (\<forall>d \<in> set (sc_pendingSteps s). \<not> ready d s)"
    by blast
  have e: "errors_of (sc_state s) = List.map_filter (step_failure agents) (sc_calls s)"
    using ok replay_errors[of agents "initial_state now initialState" "sc_calls s"]
    by (simp add: calls_ok_def errors_of_initial_state)
  from fin show ?thesis
  proof
    assume "run_workflow agents now steps initialState = s \<and> sc_pendingSteps s = []"
    then show ?thesis using e by simp
  next
    assume "run_workflow agents now steps initialState = stalled s \<and> sc_pendingSteps s \<noteq> []
          \<and> (\<forall>d \<in> set (sc_pendingSteps s). \<not> ready d s)"
    then show ?thesis using e by (simp add: errors_of_stalled stalled_fields)
  qed
qed

text \<open>
  Claim C10. The state returned by \<open>executeWorkflow\<close> has \<open>completed = true\<close> exactly
  when no step is pending at the end of the loop and \<open>errors\<close> is empty; and a step
  failure during the run, whatever ran after it, makes \<open>completed\<close> false.
\<close>

theorem executeWorkflow_completed_iff:
  "ws_completed (executeWorkflow_steps agents now steps initialState)
     = Some (sc_pendingSteps (run_workflow agents now steps initialState) = []
             \<and> errors_of (executeWorkflow_steps agents now steps initialState) = [])
   \<and> (\<forall>c \<in> set (sc_calls (run_workflow agents now steps initialState)).
         step_failure agents c \<noteq> None \<longrightarrow>
         ws_completed (executeWorkflow_steps agents now steps initialState) = Some False)"
proof
  show "ws_completed (executeWorkflow_steps agents now steps initialState)
     = Some (sc_pendingSteps (run_workflow agents now steps initialState) = []
             \<and> errors_of (executeWorkflow_steps agents now steps initialState) = [])"
    by (simp add: executeWorkflow_steps_def Let_def errors_of_def)
  show "\<forall>c \<in> set (sc_calls (run_workflow agents now steps initialState)).
         step_failure agents c \<noteq> None \<longrightarrow>
         ws_completed (executeWorkflow_steps agents now steps initialState) = Some False"
  proof (intro ballI impI)
    fix c assume c: "c \<in> set (sc_calls (run_workflow agents now steps initialState))"
      and f: "step_failure agents c \<noteq> None"
    then obtain m where "step_failure agents c = Some m" by auto
    with c have "m \<in> set (List.map_filter (step_failure agents)
                     (sc_calls (run_workflow agents now steps initialState)))"
      by (auto simp: set_map_filter)
    then have "m \<in> set (errors_of (sc_state (run_workflow agents now steps initialState)))"
      by (simp add: run_workflow_errors)
    then have "errors_of (sc_state (run_workflow agents now steps initialState)) \<noteq> []"
      by auto
    then show "ws_completed (executeWorkflow_steps agents now steps initialState) = Some False"
      by (simp add: executeWorkflow_steps_def Let_def)
  qed
qed



section \<open>Scheduler: sample runs\<close>


lemma merge_keeps_inputs:
  "ws_questionCount (merge state stepResult) = ws_questionCount state"
  "ws_url (merge state stepResult) = ws_url state"
  "ws_question (merge state stepResult) = ws_question state"
  "ws_userLevel (merge state stepResult) = ws_userLevel state"
  "ws_conversationHistory (merge state stepResult) = ws_conversationHistory state"
  "ws_sessionId (merge state stepResult) = ws_sessionId state"
  "ws_completed (merge state stepResult) = ws_completed state"
  by (simp_all add: merge_def)

lemma initial_state_inputs:
  "ws_questionCount (initial_state now state) = ws_questionCount state"
  "ws_url (initial_state now state) = ws_url state"
  "ws_question (initial_state now state) = ws_question state"
  "ws_documentContent (initial_state now state) = ws_documentContent state"
  "ws_errors (initial_state now state) = Some []"
  by (simp_all add: initial_state_def)

lemma merge_fields:
  "ws_parsedDocument (merge state stepResult)
     = merge_field (ws_parsedDocument state) (p_parsedDocument stepResult)"
  "ws_documentContent (merge state stepResult)
     = merge_field (ws_documentContent state) (p_documentContent stepResult)"
  "ws_extractedKeyPoints (merge state stepResult)
     = merge_field (ws_extractedKeyPoints state) (p_extractedKeyPoints stepResult)"
  "ws_keyPoints (merge state stepResult) = merge_field (ws_keyPoints state) (p_keyPoints stepResult)"
  "ws_generatedLearningPath (merge state stepResult)
     = merge_field (ws_generatedLearningPath state) (p_generatedLearningPath stepResult)"
  "ws_generatedQuiz (merge state stepResult)
     = merge_field (ws_generatedQuiz state) (p_generatedQuiz stepResult)"
  "ws_answer (merge state stepResult) = merge_field (ws_answer state) (p_answer stepResult)"
  "ws_currentStep (merge state stepResult)
     = merge_field (ws_currentStep state) (p_currentStep stepResult)"
  "ws_errors (merge state stepResult) = merge_field (ws_errors state) (p_errors stepResult)"
  by (simp_all add: merge_def)

definition state_full :: WorkflowState where
  "state_full = empty_state\<lparr> ws_url := Some (asc ''https://example.com/doc''),
                             ws_questionCount := Some 3 \<rparr>"

lemma scan_numeral: "scan agents round (numeral n) s = scan agents round (pred_numeral n) (visit agents round (pred_numeral n) s)"
  by (simp add: numeral_eq_Suc)

lemma visit_exec:
  "ready (sc_pendingSteps s ! i) s \<Longrightarrow>
   visit agents round i s =
     s\<lparr> sc_state :=
          merge (sc_state s)
            (projr (executeStep agents (step_type (sc_pendingSteps s ! i)) (sc_state s))),
        sc_completedSteps := insert (step_id (sc_pendingSteps s ! i)) (sc_completedSteps s),
        sc_pendingSteps := splice1 (sc_pendingSteps s) i,
        sc_progressMade := True,
        sc_calls := sc_calls s
          @ [\<lparr> call_round = round, call_step = sc_pendingSteps s ! i, call_state = sc_state s,
               call_result = executeStep agents (step_type (sc_pendingSteps s ! i)) (sc_state s) \<rparr>] \<rparr>"
  using executeStep_returns[of agents "step_type (sc_pendingSteps s ! i)" "sc_state s"]
  by (auto simp: visit_def ready_def Let_def)

lemmas run_eval =
  visit_exec visit_not_ready run_rounds_done run_rounds_stall run_rounds_next ready_def
  checkDependencies_def checkCondition_def splice1_def simple_step_def run_workflow_def
  scan_numeral call_key_def merge_keeps_inputs initial_state_inputs

text \<open>
  Claim C9, as stated, on the predefined workflow \<open>full_pipeline\<close> with a question count
  of 3 and agents that all succeed: in the third round both \<open>generate_path\<close> and
  \<open>generate_quiz\<close> are runnable, and \<open>generate_quiz\<close>, declared last, is called first.
\<close>

theorem full_pipeline_order_counterexample:
  "map step_id (wf_steps full_pipeline)
     = [asc ''parse'', asc ''extract'', asc ''generate_path'', asc ''generate_quiz'']
   \<and> map call_key (sc_calls (run_workflow stub_agents 0 (wf_steps full_pipeline) state_full))
     = [(0, asc ''parse''), (1, asc ''extract''), (2, asc ''generate_quiz''),
        (2, asc ''generate_path'')]"
  by (simp add: full_pipeline_def run_eval state_full_def empty_state_def asc_def)

lemmas step_eval =
  executeStep_def dispatch_def step_context_def executeParseDocument_def
  executeExtractKeypoints_def executeGenerateLearningPath_def executeGenerateQuiz_def
  executeAnswerQuestion_def checked_def merge_fields merge_keeps_inputs merge_field_def
  empty_patch_def or_option_def or_default_def truthy_str_def errors_of_def
  normalizeUserLevel_def initial_state_def stub_agents_def ok_def

text \<open>A workflow whose first declared step depends on the second, on a state with a
  question and a document but no URL: parsing fails, answering succeeds.\<close>

definition steps_dependent_first :: "WorkflowStep list" where
  "steps_dependent_first =
     [simple_step ''answer'' answer_question (Some [''parse'']),
      simple_step ''parse'' parse_document None]"

definition state_qa :: WorkflowState where
  "state_qa = empty_state\<lparr> ws_question := Some (asc ''What is it about?''),
                           ws_documentContent := Some sample_document \<rparr>"

definition parse_failure :: jstring where
  "parse_failure = asc ''Step parse_document failed: URL is required for document parsing''"

lemma dependent_first_calls:
  "sc_calls (run_workflow stub_agents 0 steps_dependent_first state_qa) =
     [ \<lparr> call_round = 0, call_step = simple_step ''parse'' parse_document None,
         call_state = initial_state 0 state_qa,
         call_result = Inr (empty_patch\<lparr> p_errors := Some (Some [parse_failure]) \<rparr>) \<rparr>,
       \<lparr> call_round = 0, call_step = simple_step ''answer'' answer_question (Some [''parse'']),
         call_state = merge (initial_state 0 state_qa)
                        (empty_patch\<lparr> p_errors := Some (Some [parse_failure]) \<rparr>),
         call_result = Inr (empty_patch\<lparr> p_answer := Some (Some (asc ''42'')),
                                          p_currentStep := Some (Some (asc ''question_answered'')) \<rparr>) \<rparr> ]"
proof -
  have ex1: "executeStep stub_agents parse_document (initial_state 0 state_qa)
               = Inr (empty_patch\<lparr> p_errors := Some (Some [parse_failure]) \<rparr>)"
    by (simp add: step_eval state_qa_def empty_state_def parse_failure_def stepType_text_def
        asc_def)
  have ex2: "executeStep stub_agents answer_question
               (merge (initial_state 0 state_qa)
                  (empty_patch\<lparr> p_errors := Some (Some [parse_failure]) \<rparr>))
               = Inr (empty_patch\<lparr> p_answer := Some (Some (asc ''42'')),
                                    p_currentStep := Some (Some (asc ''question_answered'')) \<rparr>)"
    by (simp add: step_eval state_qa_def empty_state_def asc_def)
  show ?thesis
    by (simp add: steps_dependent_first_def run_eval ex1 ex2 asc_def)
qed

text \<open>
  This workflow is none of the predefined ones: it declares a step before the step it
  depends on. \<open>parse\<close> fails, and its dependent \<open>answer\<close> is called in the same round,
  since a round scans from the last declared step to the first.
\<close>

lemma dependent_declared_first_same_round:
  "map step_id steps_dependent_first = [asc ''answer'', asc ''parse'']
   \<and> step_dependencies (steps_dependent_first ! 0) = Some [asc ''parse'']
   \<and> map call_key (sc_calls (run_workflow stub_agents 0 steps_dependent_first state_qa))
       = [(0, asc ''parse''), (0, asc ''answer'')]
   \<and> step_failure stub_agents (sc_calls (run_workflow stub_agents 0 steps_dependent_first state_qa) ! 0)
       = Some parse_failure"
proof -
  have ids: "map step_id steps_dependent_first = [asc ''answer'', asc ''parse'']"
    "step_dependencies (steps_dependent_first ! 0) = Some [asc ''parse'']"
    by (simp_all add: steps_dependent_first_def simple_step_def)
  have keys: "map call_key (sc_calls (run_workflow stub_agents 0 steps_dependent_first state_qa))
       = [(0, asc ''parse''), (0, asc ''answer'')]"
    unfolding dependent_first_calls by (simp add: call_key_def simple_step_def)
  have failed: "step_failure stub_agents
                  (sc_calls (run_workflow stub_agents 0 steps_dependent_first state_qa) ! 0)
       = Some parse_failure"
    unfolding dependent_first_calls
    by (simp add: step_failure_def step_eval simple_step_def state_qa_def empty_state_def
        parse_failure_def stepType_text_def asc_def)
  from ids keys failed show ?thesis by simp
qed

definition failed_parse_call :: Call where
  "failed_parse_call =
     \<lparr> call_round = 0, call_step = simple_step ''parse'' parse_document None,
       call_state = initial_state 0 state_qa,
       call_result = Inr (empty_patch\<lparr> p_errors := Some (Some [parse_failure]) \<rparr>) \<rparr>"

lemma failed_parse_call:
  "failed_parse_call \<in> set (sc_calls (run_workflow stub_agents 0 steps_dependent_first state_qa))"
  "step_failure stub_agents failed_parse_call = Some parse_failure"
  "step_id (call_step failed_parse_call) = asc ''parse''"
  unfolding dependent_first_calls failed_parse_call_def
  by (simp_all add: step_failure_def step_eval simple_step_def state_qa_def empty_state_def
      parse_failure_def stepType_text_def asc_def)

theorem executeWorkflow_completed_iff_witness:
  "sc_pendingSteps (run_workflow stub_agents 0 steps_dependent_first state_qa) = []
   \<and> ws_answer (executeWorkflow_steps stub_agents 0 steps_dependent_first state_qa) = Some (asc ''42'')
   \<and> ws_completed (executeWorkflow_steps stub_agents 0 steps_dependent_first state_qa) = Some False"
proof -
  have p: "sc_pendingSteps (run_workflow stub_agents 0 steps_dependent_first state_qa) = []"
    by (simp add: steps_dependent_first_def run_eval asc_def)
  have "step_failure stub_agents failed_parse_call \<noteq> None"
    by (simp add: failed_parse_call(2))
  with executeWorkflow_completed_iff[of stub_agents 0 steps_dependent_first state_qa]
    failed_parse_call(1)
  have c: "ws_completed (executeWorkflow_steps stub_agents 0 steps_dependent_first state_qa) = Some False"
    by blast
  have ex2: "executeStep stub_agents answer_question
               (merge (initial_state 0 state_qa)
                  (projr (executeStep stub_agents parse_document (initial_state 0 state_qa))))
               = Inr (empty_patch\<lparr> p_answer := Some (Some (asc ''42'')),
                                    p_currentStep := Some (Some (asc ''question_answered'')) \<rparr>)"
    by (simp add: step_eval state_qa_def empty_state_def asc_def)
  have a: "ws_answer (executeWorkflow_steps stub_agents 0 steps_dependent_first state_qa) = Some (asc ''42'')"
    by (simp add: executeWorkflow_steps_def steps_dependent_first_def run_eval ex2 merge_fields
        merge_field_def empty_patch_def asc_def)
  from p a c show ?thesis by simp
qed

text \<open>A workflow with a dependency cycle between two of its three steps.\<close>

definition steps_cycle :: "WorkflowStep list" where
  "steps_cycle =
     [simple_step ''parse'' parse_document None,
      simple_step ''a'' extract_keypoints (Some [''b'']),
      simple_step ''b'' generate_learning_path (Some [''a''])]"

definition cycle_ab :: "WorkflowStep list" where
  "cycle_ab =
     [simple_step ''a'' extract_keypoints (Some [''b'']),
      simple_step ''b'' generate_learning_path (Some [''a''])]"

theorem executeWorkflow_cycle_stalls_witness:
  "distinct (map step_id steps_cycle) \<and> dependency_cycle steps_cycle cycle_ab
   \<and> ws_completed (executeWorkflow_steps stub_agents 0 steps_cycle state_full) = Some False
   \<and> last (errors_of (executeWorkflow_steps stub_agents 0 steps_cycle state_full)) = stall_message
   \<and> map call_key (sc_calls (run_workflow stub_agents 0 steps_cycle state_full)) = [(0, asc ''parse'')]"
proof -
  have h1: "distinct (map step_id steps_cycle)"
    by (simp add: steps_cycle_def simple_step_def asc_def)
  have h2: "dependency_cycle steps_cycle cycle_ab"
    by (simp add: dependency_cycle_def steps_cycle_def cycle_ab_def depends_on_def simple_step_def
        less_Suc_eq numeral_2_eq_2)
  have k: "map call_key (sc_calls (run_workflow stub_agents 0 steps_cycle state_full)) = [(0, asc ''parse'')]"
    by (simp add: steps_cycle_def run_eval stalled_def asc_def)
  from executeWorkflow_cycle_stalls[OF h1 h2, of stub_agents 0 state_full] h1 h2 k
  show ?thesis by simp
qed


section \<open>Scheduler: rounds and declaration order\<close>




























section \<open>Key-point extractor: structured output recovery\<close>

text \<open>
  \<open>JSON.parse\<close> is a built-in: it is the parameter \<open>JSON_parse\<close>, which gives the
  message of the \<open>SyntaxError\<close> it throws (\<open>Inl\<close>) or the value parsed. Of that value
  the extractor looks only at whether it is an array, and of an array at its elements,
  which the source casts to \<open>KeyPoint\<close>.
\<close>

datatype parsed_json = JsonArray "KeyPoint list" | JsonOther

text \<open>\<open>BaseAgent.safeJsonParse\<close>: the \<open>catch\<close> returns the fallback. The result keeps the
  exception channel, which \<open>safeJsonParse\<close> never uses.\<close>

definition safeJsonParse ::
  "(jstring \<Rightarrow> jstring + parsed_json) \<Rightarrow> jstring \<Rightarrow> parsed_json \<Rightarrow> jstring + parsed_json" where
  "safeJsonParse JSON_parse text fallback =
     (case JSON_parse text of Inr v \<Rightarrow> Inr v | Inl syntax_error \<Rightarrow> Inr fallback)"

text \<open>
  \<open>responseText.match(/\[\s*{[\s\S]*}\s*\]/)\<close>, giving \<open>jsonMatch[0]\<close>: the leftmost
  \<open>[\<close>, white space, \<open>{\<close>, then (greedy) everything up to the last \<open>}\<close> that is
  followed by white space and \<open>]\<close>.
  \<open>closes r\<close> is the length of the match of \<open>\s*\]\<close> at the start of \<open>r\<close>;
  \<open>last_close t\<close> is the length of the longest match of \<open>[\s\S]*}\s*\]\<close> at the start
  of \<open>t\<close>; \<open>match_here s\<close> is the match of the whole expression at the start of \<open>s\<close>.
\<close>

definition closes :: "jstring \<Rightarrow> nat option" where
  "closes r =
     (case dropWhile is_space r of
        c # rest \<Rightarrow> if c = 93 then Some (length (takeWhile is_space r) + 1) else None
      | [] \<Rightarrow> None)"

fun last_close :: "jstring \<Rightarrow> nat option" where
  "last_close [] = None"
| "last_close (c # cs) =
     (case last_close cs of
        Some e \<Rightarrow> Some (Suc e)
      | None \<Rightarrow> if c = 125 then map_option Suc (closes cs) else None)"

definition match_here :: "jstring \<Rightarrow> jstring option" where
  "match_here s =
     (case s of
        c # r \<Rightarrow>
          if c = 91 then
            (case dropWhile is_space r of
               b # t \<Rightarrow>
                 if b = 123 then
                   map_option (\<lambda>e. take (1 + length (takeWhile is_space r) + 1 + e) s) (last_close t)
                 else None
             | [] \<Rightarrow> None)
          else None
      | [] \<Rightarrow> None)"

fun match_json_array :: "jstring \<Rightarrow> jstring option" where
  "match_json_array [] = None"
| "match_json_array (c # cs) =
     (case match_here (c # cs) of Some m \<Rightarrow> Some m | None \<Rightarrow> match_json_array cs)"

text \<open>\<open>text.split('\n')\<close>.\<close>

fun split_on :: "nat \<Rightarrow> jstring \<Rightarrow> jstring list" where
  "split_on d [] = [[]]"
| "split_on d (c # cs) =
     (if c = d then [] # split_on d cs
      else (case split_on d cs of l # ls \<Rightarrow> (c # l) # ls | [] \<Rightarrow> [[c]]))"

text \<open>\<open>s.match(/^\d+\.|^-|^\*/)\<close>: the length of the marker at the start of \<open>s\<close>.\<close>

definition match_marker :: "jstring \<Rightarrow> nat option" where
  "match_marker s =
     (let ds = takeWhile is_digit s in
      if ds \<noteq> [] \<and> take 1 (drop (length ds) s) = [46] then Some (length ds + 1)
      else if take 1 s = [45] then Some 1
      else if take 1 s = [42] then Some 1
      else None)"

text \<open>\<open>KeyPointExtractorAgent.completeKeyPoint\<close>. A \<open>Partial<KeyPoint>\<close> is a key point
  whose missing strings are empty.\<close>

definition empty_partial :: KeyPoint where
  "empty_partial =
     \<lparr> kp_concept = [], kp_description = [], kp_importance = [], kp_category = None,
       kp_examples = None \<rparr>"

definition completeKeyPoint :: "KeyPoint \<Rightarrow> KeyPoint" where
  "completeKeyPoint partial =
     \<lparr> kp_concept = or_else (kp_concept partial) (asc ''Unknown Concept''),
       kp_description = or_else (kp_description partial) (asc ''No description available''),
       kp_importance = or_else (kp_importance partial) (asc ''medium''),
       kp_category = kp_category partial,
       kp_examples = Some (case kp_examples partial of None \<Rightarrow> [] | Some es \<Rightarrow> es) \<rparr>"

text \<open>\<open>KeyPointExtractorAgent.parseKeyPointsFromText\<close>: the body of the loop over the
  lines, on the pair of \<open>keyPoints\<close> and \<open>currentKeyPoint\<close>, and the function.\<close>

definition text_line :: "KeyPoint list \<times> KeyPoint \<Rightarrow> jstring \<Rightarrow> KeyPoint list \<times> KeyPoint" where
  "text_line acc line =
     (let keyPoints = fst acc; currentKeyPoint = snd acc; trimmedLine = trim line in
      case (if length trimmedLine > 5 then match_marker trimmedLine else None) of
        Some n \<Rightarrow>
          ((if kp_concept currentKeyPoint \<noteq> []
            then keyPoints @ [completeKeyPoint currentKeyPoint] else keyPoints),
           empty_partial\<lparr> kp_concept := trim (drop n trimmedLine),
                          kp_importance := asc ''medium'' \<rparr>)
      | None \<Rightarrow>
          if length trimmedLine > 10 \<and> kp_concept currentKeyPoint \<noteq> []
          then (keyPoints,
                currentKeyPoint\<lparr> kp_description :=
                  kp_description currentKeyPoint @ asc '' '' @ trimmedLine \<rparr>)
          else (keyPoints, currentKeyPoint))"

definition parseKeyPointsFromText :: "jstring \<Rightarrow> KeyPoint list" where
  "parseKeyPointsFromText text =
     (let acc = foldl text_line ([], empty_partial) (split_on 10 text) in
      if kp_concept (snd acc) \<noteq> [] then fst acc @ [completeKeyPoint (snd acc)] else fst acc)"

text \<open>
  \<open>KeyPointExtractorAgent.parseKeyPointsResponse\<close>: the body of the \<open>try\<close>, with the
  exception channel of the calls it makes, and the function with its \<open>catch\<close>.
\<close>

definition parseKeyPointsResponse_try ::
  "(jstring \<Rightarrow> jstring + parsed_json) \<Rightarrow> jstring \<Rightarrow> jstring + KeyPoint list" where
  "parseKeyPointsResponse_try JSON_parse responseText =
     (case safeJsonParse JSON_parse responseText (JsonArray []) of
        Inl e \<Rightarrow> Inl e
      | Inr parsed \<Rightarrow>
          (case parsed of
             JsonArray (k # ks) \<Rightarrow> Inr (k # ks)
           | _ \<Rightarrow>
               (case match_json_array responseText of
                  Some jsonMatch \<Rightarrow>
                    (case safeJsonParse JSON_parse jsonMatch (JsonArray []) of
                       Inl e \<Rightarrow> Inl e
                     | Inr (JsonArray extracted) \<Rightarrow> Inr extracted
                     | Inr JsonOther \<Rightarrow> Inr (parseKeyPointsFromText responseText))
                | None \<Rightarrow> Inr (parseKeyPointsFromText responseText))))"

definition parseKeyPointsResponse ::
  "(jstring \<Rightarrow> jstring + parsed_json) \<Rightarrow> jstring \<Rightarrow> jstring + KeyPoint list" where
  "parseKeyPointsResponse JSON_parse responseText =
     (case parseKeyPointsResponse_try JSON_parse responseText of
        Inr keyPoints \<Rightarrow> Inr keyPoints
      | Inl thrown \<Rightarrow> Inr (parseKeyPointsFromText responseText))"

lemma parseKeyPointsResponse_returns:
  "\<exists>keyPoints. parseKeyPointsResponse JSON_parse responseText = Inr keyPoints"
  by (simp add: parseKeyPointsResponse_def split: sum.splits)

text \<open>The bracketed substring runs from the first \<open>[ {\<close> to the last \<open>} ]\<close>.\<close>

lemma match_json_array_sample:
  "match_json_array (asc ''x [1] [ {a} ] y [ {b} ]  ] z'') = Some (asc ''[ {a} ] y [ {b} ]'')"
  by (simp add: asc_def match_here_def closes_def is_space_def)



section \<open>Key-point extractor: \<open>doExecute\<close>\<close>

record KeyPointExtractorInput =
  kin_documentContent :: DocumentContent
  kin_userLevel :: UserLevel
  kin_maxKeyPoints :: "int option"

text \<open>The variables handed to the prompt template.\<close>

record PromptInput =
  pi_title :: jstring
  pi_content :: jstring
  pi_userLevel :: jstring
  pi_maxKeyPoints :: jstring

definition elision_marker :: jstring where
  \<comment> \<open>two line feeds, "... [" , four ideographs ("content truncated"), "] ...", two line feeds\<close>
  "elision_marker =
     [10, 10, 46, 46, 46, 32, 91, 20869, 23481, 24050, 25130, 21462, 93, 32, 46, 46, 46, 10, 10]"

text \<open>\<open>KeyPointExtractorAgent.preprocessContent\<close>: \<open>headLength\<close> is
  \<open>Math.floor(4000 * 0.7) = 2800\<close> and \<open>tailLength\<close> is \<open>4000 - 2800 - 50 = 1150\<close>.\<close>

definition preprocessContent :: "jstring \<Rightarrow> jstring" where
  "preprocessContent content =
     (let maxLength = 4000; processedContent = cleanText content in
      if length processedContent > maxLength then
        (let headLength = 2800; tailLength = maxLength - headLength - 50 in
         take headLength processedContent @ elision_marker
           @ drop (length processedContent - tailLength) processedContent)
      else processedContent)"

definition userLevel_text :: "UserLevel \<Rightarrow> jstring" where
  "userLevel_text userLevel = (case userLevel of beginner \<Rightarrow> asc ''beginner'' | advanced \<Rightarrow> asc ''advanced'')"

text \<open>The \<open>catch\<close> of \<open>doExecute\<close>: the error is classified by words of its message and
  thrown again with the name of its class in front.\<close>

definition classify :: "jstring \<Rightarrow> jstring" where
  "classify message =
     (if str_includes message (asc ''timeout'')
      then asc ''TIMEOUT_ERROR'' @ asc '': LLM request timeout''
      else if str_includes message (asc ''API'') \<or> str_includes message (asc ''model'')
      then asc ''LLM_ERROR'' @ asc '': '' @ message
      else if str_includes message (asc ''parse'') \<or> str_includes message (asc ''JSON'')
      then asc ''PARSING_ERROR'' @ asc '': Failed to parse LLM response''
      else asc ''UNKNOWN_ERROR'' @ asc '': '' @ message)"

text \<open>
  \<open>KeyPointExtractorAgent.doExecute\<close>. \<open>invoke\<close> is the call of the model through the
  chain: the response text, or the message of the error it throws. \<open>Inl\<close> is the
  message of the error \<open>doExecute\<close> throws.
\<close>

definition doExecute_try ::
  "(jstring \<Rightarrow> jstring + parsed_json) \<Rightarrow> (jstring \<Rightarrow> jstring)
     \<Rightarrow> (PromptInput \<Rightarrow> jstring + jstring) \<Rightarrow> KeyPointExtractorInput
     \<Rightarrow> jstring + KeyPoint list" where
  "doExecute_try JSON_parse toLowerCase invoke input =
     (let documentContent = kin_documentContent input;
          userLevel = kin_userLevel input;
          maxKeyPoints = (case kin_maxKeyPoints input of None \<Rightarrow> 8 | Some n \<Rightarrow> n);
          promptInput =
            \<lparr> pi_title = or_else (dc_title documentContent) (asc ''Untitled''),
              pi_content = preprocessContent (dc_content documentContent),
              pi_userLevel = userLevel_text userLevel,
              pi_maxKeyPoints = show_int maxKeyPoints \<rparr>
      in case invoke promptInput of
           Inl message \<Rightarrow> Inl message
         | Inr responseText \<Rightarrow>
             (case parseKeyPointsResponse JSON_parse responseText of
                Inl message \<Rightarrow> Inl message
              | Inr keyPoints \<Rightarrow>
                  (let validatedKeyPoints =
                         validateAndCleanKeyPoints toLowerCase keyPoints maxKeyPoints
                   in if length validatedKeyPoints = 0
                      then Inl (asc ''No valid key points extracted from the document'')
                      else Inr validatedKeyPoints)))"

definition doExecute ::
  "(jstring \<Rightarrow> jstring + parsed_json) \<Rightarrow> (jstring \<Rightarrow> jstring)
     \<Rightarrow> (PromptInput \<Rightarrow> jstring + jstring) \<Rightarrow> KeyPointExtractorInput
     \<Rightarrow> jstring + KeyPoint list" where
  "doExecute JSON_parse toLowerCase invoke input =
     (case doExecute_try JSON_parse toLowerCase invoke input of
        Inr validatedKeyPoints \<Rightarrow> Inr validatedKeyPoints
      | Inl message \<Rightarrow> Inl (classify message))"

text \<open>The response text and the maximum count of a call of \<open>doExecute\<close>, and the
  validated sequence its pipeline produces from a response.\<close>

definition prompt_of :: "KeyPointExtractorInput \<Rightarrow> PromptInput" where
  "prompt_of input =
     \<lparr> pi_title = or_else (dc_title (kin_documentContent input)) (asc ''Untitled''),
       pi_content = preprocessContent (dc_content (kin_documentContent input)),
       pi_userLevel = userLevel_text (kin_userLevel input),
       pi_maxKeyPoints =
         show_int (case kin_maxKeyPoints input of None \<Rightarrow> 8 | Some n \<Rightarrow> n) \<rparr>"

definition validated_of ::
  "(jstring \<Rightarrow> jstring + parsed_json) \<Rightarrow> (jstring \<Rightarrow> jstring) \<Rightarrow> KeyPointExtractorInput
     \<Rightarrow> jstring \<Rightarrow> KeyPoint list" where
  "validated_of JSON_parse toLowerCase input responseText =
     (case parseKeyPointsResponse JSON_parse responseText of
        Inr keyPoints \<Rightarrow>
          validateAndCleanKeyPoints toLowerCase keyPoints
            (case kin_maxKeyPoints input of None \<Rightarrow> 8 | Some n \<Rightarrow> n)
      | Inl thrown \<Rightarrow> [])"

lemma classify_no_key_points:
  "classify (asc ''No valid key points extracted from the document'')
     = asc ''UNKNOWN_ERROR: No valid key points extracted from the document''"
  by (simp add: classify_def asc_def)

text \<open>
  An empty validated sequence is not an empty success: \<open>doExecute\<close> throws. The message
  thrown in the \<open>try\<close> block, \<open>No valid key points extracted from the document\<close>, has
  none of the words the \<open>catch\<close> looks for (\<open>parse\<close> and \<open>JSON\<close> for \<open>PARSING_ERROR\<close>), so
  for every response the error that leaves \<open>doExecute\<close> carries the class of the last
  branch, \<open>UNKNOWN_ERROR\<close>.
\<close>

lemma doExecute_empty_is_unknown_error:
  assumes "invoke (prompt_of input) = Inr responseText"
    and "validated_of JSON_parse toLowerCase input responseText = []"
  shows "doExecute JSON_parse toLowerCase invoke input
           = Inl (asc ''UNKNOWN_ERROR: No valid key points extracted from the document'')"
proof -
  obtain keyPoints where k: "parseKeyPointsResponse JSON_parse responseText = Inr keyPoints"
    using parseKeyPointsResponse_returns by blast
  with assms(2) have "validateAndCleanKeyPoints toLowerCase keyPoints
            (case kin_maxKeyPoints input of None \<Rightarrow> 8 | Some n \<Rightarrow> n) = []"
    by (simp add: validated_of_def)
  with assms(1) k have "doExecute_try JSON_parse toLowerCase invoke input
          = Inl (asc ''No valid key points extracted from the document'')"
    by (simp add: doExecute_try_def prompt_of_def Let_def)
  then show ?thesis
    by (simp add: doExecute_def classify_no_key_points)
qed

text \<open>
  A response in plain prose, with no bracket and no list marker. \<open>JSON.parse\<close> throws
  on it; the stand-in for \<open>JSON.parse\<close> throws on every text, and only its answer on
  this response is used.
\<close>

definition prose_response :: jstring where
  "prose_response = asc ''The document talks about many things.''"

definition json_rejects :: "jstring \<Rightarrow> jstring + parsed_json" where
  "json_rejects text = Inl (asc ''Unexpected token'')"

definition invoke_prose :: "PromptInput \<Rightarrow> jstring + jstring" where
  "invoke_prose promptInput = Inr prose_response"

definition sample_input :: KeyPointExtractorInput where
  "sample_input =
     \<lparr> kin_documentContent = sample_document, kin_userLevel = beginner,
       kin_maxKeyPoints = None \<rparr>"

lemma prose_parsed: "parseKeyPointsResponse json_rejects prose_response = Inr []"
proof -
  have "match_json_array prose_response = None"
    by (simp add: prose_response_def asc_def match_here_def)
  moreover have "parseKeyPointsFromText prose_response = []"
    by (simp add: prose_response_def asc_def parseKeyPointsFromText_def text_line_def trim_def
        is_space_def match_marker_def is_digit_def Let_def empty_partial_def)
  ultimately show ?thesis
    by (simp add: parseKeyPointsResponse_def parseKeyPointsResponse_try_def safeJsonParse_def
        json_rejects_def)
qed

lemma prose_validated: "validated_of json_rejects ascii_lower sample_input prose_response = []"
  by (simp add: prose_parsed validated_of_def validateAndCleanKeyPoints_def slice0_def
      filter_indexed_def)

text \<open>
  The \<open>catch\<close> of \<open>QAAgent.doExecute\<close>, for comparison: the question-answering agent
  throws \<open>Generated answer is empty\<close> for an empty result, and its \<open>catch\<close> looks for the
  word \<open>empty\<close>, so there the empty result leaves with the class \<open>PARSING_ERROR\<close>.
\<close>

definition qa_classify :: "jstring \<Rightarrow> jstring" where
  "qa_classify message =
     (if str_includes message (asc ''timeout'')
      then asc ''TIMEOUT_ERROR'' @ asc '': LLM request timeout''
      else if str_includes message (asc ''API'') \<or> str_includes message (asc ''model'')
      then asc ''LLM_ERROR'' @ asc '': '' @ message
      else if str_includes message (asc ''empty'') \<or> str_includes message (asc ''invalid'')
      then asc ''PARSING_ERROR'' @ asc '': Invalid response generated''
      else asc ''UNKNOWN_ERROR'' @ asc '': '' @ message)"

lemma qa_classify_empty_answer:
  "qa_classify (asc ''Generated answer is empty'')
     = asc ''PARSING_ERROR: Invalid response generated''"
  by (simp add: qa_classify_def asc_def)

text \<open>
  Claim C5. For every model response from which the recovery and normalization pipeline
  produces an empty validated sequence, the failure is classified as a \<open>PARSING_ERROR\<close>.
  The code does not do so: on the prose response the validated sequence is empty and
  the error that leaves \<open>doExecute\<close> carries the class \<open>UNKNOWN_ERROR\<close>. The \<open>catch\<close> of
  \<open>doExecute\<close> has a branch for \<open>PARSING_ERROR\<close>, which the message of the empty result
  does not reach.
\<close>

theorem doExecute_prose_response_unknown_error:
  "invoke_prose (prompt_of sample_input) = Inr prose_response
   \<and> validated_of json_rejects ascii_lower sample_input prose_response = []
   \<and> doExecute json_rejects ascii_lower invoke_prose sample_input
       = Inl (asc ''UNKNOWN_ERROR: No valid key points extracted from the document'')
   \<and> doExecute json_rejects ascii_lower invoke_prose sample_input
       \<noteq> Inl (asc ''PARSING_ERROR: Failed to parse LLM response'')"
proof -
  have h1: "invoke_prose (prompt_of sample_input) = Inr prose_response"
    by (simp add: invoke_prose_def)
  have "doExecute_try json_rejects ascii_lower invoke_prose sample_input
          = Inl (asc ''No valid key points extracted from the document'')"
    using prose_validated
    by (simp add: doExecute_try_def invoke_prose_def validated_of_def prose_parsed Let_def
        sample_input_def)
  then have "doExecute json_rejects ascii_lower invoke_prose sample_input
          = Inl (asc ''UNKNOWN_ERROR: No valid key points extracted from the document'')"
    by (simp add: doExecute_def classify_no_key_points)
  then show ?thesis
    using h1 prose_validated by (simp add: asc_def)
qed

end
